theory Spec2Isabelle
  imports Complex_Main "HOL-Library.Multiset"
begin

section \<open>The Number type of the language\<close>

text \<open>
  The program is TypeScript; every number in it is an IEEE 754 binary64 value. A number is
  modelled as \<open>NaN\<close>, one of the two infinities, or a finite value \<open>Fin r\<close> carrying the
  exact rational it denotes. Each arithmetic operation computes the exact rational result
  and rounds it to the nearest binary64 value (ties to even), overflowing to an infinity,
  as the hardware does. The sign of zero is not modelled: none of the operations used by
  the two functions below observes it (\<open>Map\<close> keys identify \<open>+0\<close> and \<open>-0\<close>, a
  comparator result of either zero means "equal", and both print as \<open>0\<close>).
\<close>

datatype jsnum = NaN | NegInf | Fin rat | PosInf

text \<open>\<open>ndigits b n\<close> is the number of digits of the positive integer \<open>n\<close> in base \<open>b\<close>.\<close>

function ndigits :: "int \<Rightarrow> int \<Rightarrow> int" where
  "ndigits b n = (if 1 < b \<and> 0 < n then ndigits b (n div b) + 1 else 0)"
  by pat_completeness auto
termination
  by (relation "measure (\<lambda>(b, n). nat n)") (auto intro: int_div_less_self)

declare ndigits.simps [simp del]

text \<open>
  \<open>ilog b a\<close> is the integer \<open>e\<close> with \<open>b ^ e \<le> a < b ^ (e + 1)\<close>, for a positive rational
  \<open>a\<close>: the digit counts of numerator and denominator give it up to one, and a comparison
  settles which.
\<close>

definition ilog :: "int \<Rightarrow> rat \<Rightarrow> int" where
  "ilog b a =
     (let (p, q) = quotient_of a;
          d = ndigits b p - ndigits b q
      in if rat_of_int b powi d \<le> a then d else d - 1)"

definition round_half_even :: "rat \<Rightarrow> int" where
  "round_half_even r =
     (let f = \<lfloor>r\<rfloor>; d = r - rat_of_int f
      in if d < 1 / 2 then f else if 1 / 2 < d then f + 1
         else if even f then f else f + 1)"

text \<open>
  Rounding a positive rational to binary64: the binary exponent \<open>e\<close> (not below that of the
  smallest normal number, so that the subnormal range shares one spacing), the spacing
  \<open>2 ^ (e - 52)\<close> of the representable values around \<open>a\<close>, and the nearest multiple of it.
\<close>

definition rd_pos :: "rat \<Rightarrow> rat" where
  "rd_pos a =
     (let e = max (ilog 2 a) (- 1022);
          q = 2 powi (e - 52)
      in rat_of_int (round_half_even (a / q)) * q)"

definition rd :: "rat \<Rightarrow> jsnum" where
  "rd x =
     (if x = 0 then Fin 0
      else let y = rd_pos \<bar>x\<bar>
           in if 2 ^ 1024 \<le> y then (if x < 0 then NegInf else PosInf)
              else Fin (if x < 0 then - y else y))"

text \<open>A finite value is a binary64 number when rounding leaves it alone.\<close>

fun isDouble :: "jsnum \<Rightarrow> bool" where
  "isDouble (Fin a) = (rd a = Fin a)"
| "isDouble _ = True"

definition isNaN :: "jsnum \<Rightarrow> bool" where
  "isNaN x = (x = NaN)"

fun jneg :: "jsnum \<Rightarrow> jsnum" where
  "jneg NaN = NaN"
| "jneg NegInf = PosInf"
| "jneg PosInf = NegInf"
| "jneg (Fin a) = Fin (- a)"

fun jadd :: "jsnum \<Rightarrow> jsnum \<Rightarrow> jsnum" where
  "jadd NaN _ = NaN"
| "jadd _ NaN = NaN"
| "jadd PosInf NegInf = NaN"
| "jadd NegInf PosInf = NaN"
| "jadd PosInf _ = PosInf"
| "jadd NegInf _ = NegInf"
| "jadd _ PosInf = PosInf"
| "jadd _ NegInf = NegInf"
| "jadd (Fin a) (Fin b) = rd (a + b)"

definition jsub :: "jsnum \<Rightarrow> jsnum \<Rightarrow> jsnum" where
  "jsub x y = jadd x (jneg y)"

fun jsign :: "jsnum \<Rightarrow> int" where
  "jsign NaN = 0"
| "jsign NegInf = - 1"
| "jsign PosInf = 1"
| "jsign (Fin a) = (if a < 0 then - 1 else if a = 0 then 0 else 1)"

fun jmul :: "jsnum \<Rightarrow> jsnum \<Rightarrow> jsnum" where
  "jmul NaN _ = NaN"
| "jmul _ NaN = NaN"
| "jmul (Fin a) (Fin b) = rd (a * b)"
| "jmul x y =
     (let s = jsign x * jsign y
      in if s = 0 then NaN else if s < 0 then NegInf else PosInf)"

fun jabs :: "jsnum \<Rightarrow> jsnum" where
  "jabs NaN = NaN"
| "jabs NegInf = PosInf"
| "jabs PosInf = PosInf"
| "jabs (Fin a) = Fin \<bar>a\<bar>"

text \<open>The operator \<open><\<close> on numbers: false as soon as one side is \<open>NaN\<close>.\<close>

fun jless :: "jsnum \<Rightarrow> jsnum \<Rightarrow> bool" where
  "jless NaN _ = False"
| "jless _ NaN = False"
| "jless PosInf _ = False"
| "jless _ NegInf = False"
| "jless NegInf _ = True"
| "jless _ PosInf = True"
| "jless (Fin a) (Fin b) = (a < b)"

fun Math_floor :: "jsnum \<Rightarrow> jsnum" where
  "Math_floor (Fin a) = Fin (rat_of_int \<lfloor>a\<rfloor>)"
| "Math_floor x = x"

fun Math_ceil :: "jsnum \<Rightarrow> jsnum" where
  "Math_ceil (Fin a) = Fin (rat_of_int \<lceil>a\<rceil>)"
| "Math_ceil x = x"

section \<open>Strings and numbers\<close>

text \<open>
  A string is a list of code units; the model has the code units below 256 (Latin-1), which
  hold every character the two functions test for. The white space of the numeric grammar
  is then TAB, LF, VT, FF, CR, SP and NBSP.
\<close>

definition isWhiteSpace :: "char \<Rightarrow> bool" where
  "isWhiteSpace c = (of_char c \<in> {9, 10, 11, 12, 13, 32, 160 :: nat})"

definition isDigit :: "char \<Rightarrow> bool" where
  "isDigit c = (48 \<le> (of_char c :: nat) \<and> (of_char c :: nat) \<le> 57)"

text \<open>The value of a digit in any radix up to 16; 16 for a character that is no digit.\<close>

definition digitValue :: "char \<Rightarrow> int" where
  "digitValue c =
     (let n = of_char c :: int
      in if 48 \<le> n \<and> n \<le> 57 then n - 48
         else if 97 \<le> n \<and> n \<le> 102 then n - 87
         else if 65 \<le> n \<and> n \<le> 70 then n - 55
         else 16)"

definition digitsValue :: "int \<Rightarrow> string \<Rightarrow> int" where
  "digitsValue b ds = foldl (\<lambda>acc c. acc * b + digitValue c) 0 ds"

definition trimStart :: "string \<Rightarrow> string" where
  "trimStart s = dropWhile isWhiteSpace s"

definition trim :: "string \<Rightarrow> string" where
  "trim s = rev (dropWhile isWhiteSpace (rev (dropWhile isWhiteSpace s)))"

definition startsWith :: "string \<Rightarrow> string \<Rightarrow> bool" where
  "startsWith s p = (take (length p) s = p)"

text \<open>
  The exponent part of a decimal literal: \<open>e\<close> or \<open>E\<close>, an optional sign and at least one
  digit. When the digits are missing, nothing is consumed.
\<close>

definition parseExponent :: "string \<Rightarrow> int \<times> string" where
  "parseExponent s =
     (case s of
        [] \<Rightarrow> (0, s)
      | c # t \<Rightarrow>
          if c = CHR ''e'' \<or> c = CHR ''E'' then
            (let (neg, u) =
                   (case t of
                      [] \<Rightarrow> (False, t)
                    | d # v \<Rightarrow> if d = CHR ''-'' then (True, v)
                               else if d = CHR ''+'' then (False, v) else (False, t));
                 ds = takeWhile isDigit u
             in if ds = [] then (0, s)
                else ((if neg then - digitsValue 10 ds else digitsValue 10 ds),
                      dropWhile isDigit u))
          else (0, s))"

text \<open>
  The longest prefix of \<open>s\<close> that is an unsigned decimal literal (\<open>Infinity\<close>, or digits with
  an optional fraction and exponent, at least one digit before or after the point), with
  the number it denotes and the rest of the string.
\<close>

definition parseUnsignedDecimal :: "string \<Rightarrow> (jsnum \<times> string) option" where
  "parseUnsignedDecimal s =
     (if startsWith s ''Infinity'' then Some (PosInf, drop 8 s)
      else
        let ip = takeWhile isDigit s;
            r1 = dropWhile isDigit s;
            (fp, r2) =
               (case r1 of
                  [] \<Rightarrow> ([], r1)
                | c # t \<Rightarrow> if c = CHR ''.'' then (takeWhile isDigit t, dropWhile isDigit t)
                           else ([], r1))
        in if ip = [] \<and> fp = [] then None
           else
             let (ex, r3) = parseExponent r2;
                 m = rat_of_int (digitsValue 10 (ip @ fp))
             in Some (rd (m * 10 powi (ex - int (length fp))), r3))"

definition parseStrDecimalLiteral :: "string \<Rightarrow> (jsnum \<times> string) option" where
  "parseStrDecimalLiteral s =
     (case s of
        [] \<Rightarrow> None
      | c # t \<Rightarrow>
          if c = CHR ''-'' then map_option (\<lambda>(v, r). (jneg v, r)) (parseUnsignedDecimal t)
          else if c = CHR ''+'' then parseUnsignedDecimal t
          else parseUnsignedDecimal s)"

text \<open>
  \<open>parseFloat\<close>: leading white space is dropped, the longest prefix that is a decimal
  literal is read, and what follows it is ignored; \<open>NaN\<close> when there is no such prefix.
\<close>

definition parseFloat :: "string \<Rightarrow> jsnum" where
  "parseFloat s =
     (case parseStrDecimalLiteral (trimStart s) of
        None \<Rightarrow> NaN
      | Some (v, _) \<Rightarrow> v)"

definition parseRadix :: "int \<Rightarrow> string \<Rightarrow> jsnum" where
  "parseRadix b ds =
     (if ds \<noteq> [] \<and> list_all (\<lambda>c. digitValue c < b) ds
      then rd (rat_of_int (digitsValue b ds)) else NaN)"

text \<open>
  The conversion of a string to a number (\<open>Number(s)\<close>): white space is trimmed on both
  sides; the empty string is \<open>0\<close>; otherwise the whole string must be a hexadecimal, octal or
  binary integer literal or a decimal literal, and is \<open>NaN\<close> if it is not.
\<close>

definition StringToNumber :: "string \<Rightarrow> jsnum" where
  "StringToNumber s =
     (let t = trim s
      in if t = [] then Fin 0
         else if startsWith t ''0x'' \<or> startsWith t ''0X'' then parseRadix 16 (drop 2 t)
         else if startsWith t ''0o'' \<or> startsWith t ''0O'' then parseRadix 8 (drop 2 t)
         else if startsWith t ''0b'' \<or> startsWith t ''0B'' then parseRadix 2 (drop 2 t)
         else case parseStrDecimalLiteral t of
                Some (v, []) \<Rightarrow> v
              | _ \<Rightarrow> NaN)"

function digitsOf :: "int \<Rightarrow> string" where
  "digitsOf n =
     (if n < 10 then [char_of (48 + (if n < 0 then 0 else n))]
      else digitsOf (n div 10) @ [char_of (48 + n mod 10)])"
  by pat_completeness auto
termination
  by (relation "measure nat") auto

declare digitsOf.simps [simp del]

text \<open>
  The conversion of a number to a string prints the shortest decimal \<open>s * 10 ^ (n - k)\<close>,
  \<open>s\<close> of \<open>k\<close> digits, that reads back as the same number. \<open>shortestDigits\<close> tries
  \<open>k = 1, 2, ...\<close> in turn; for each \<open>k\<close> the two candidates are the neighbours of the value
  scaled to \<open>k\<close> digits, and the nearer one is taken when both read back. Seventeen digits
  always suffice for a binary64 number.
\<close>

definition validDigits :: "rat \<Rightarrow> int \<Rightarrow> int \<Rightarrow> int \<Rightarrow> bool" where
  "validDigits a n k s =
     (10 ^ nat (k - 1) \<le> s \<and> s < 10 ^ nat k \<and> rd (rat_of_int s * 10 powi (n - k)) = Fin a)"

fun shortestDigits :: "rat \<Rightarrow> int \<Rightarrow> int list \<Rightarrow> int \<times> int" where
  "shortestDigits a n [] = (17, \<lfloor>a / 10 powi (n - 17)\<rfloor>)"
| "shortestDigits a n (k # ks) =
     (let u = 10 powi (n - k);
          lo = \<lfloor>a / u\<rfloor>;
          hi = lo + 1;
          okLo = validDigits a n k lo;
          okHi = validDigits a n k hi;
          dLo = a - rat_of_int lo * u;
          dHi = rat_of_int hi * u - a
      in if okLo \<and> okHi then
           (k, if dLo < dHi then lo else if dHi < dLo then hi else if even lo then lo else hi)
         else if okLo then (k, lo)
         else if okHi then (k, hi)
         else shortestDigits a n ks)"

text \<open>
  \<open>decimalRepr a = (n, k, s)\<close> for a positive \<open>a\<close>. A power of ten just above \<open>a\<close> that
  reads back as \<open>a\<close> is the one case in which the decimal has one digit more before the
  point than \<open>a\<close> itself.
\<close>

definition decimalRepr :: "rat \<Rightarrow> int \<times> int \<times> int" where
  "decimalRepr a =
     (let n = ilog 10 a + 1
      in if rd (10 powi n) = Fin a then (n + 1, 1, 1)
         else let (k, s) = shortestDigits a n [1, 2, 3, 4, 5, 6, 7, 8, 9, 10, 11, 12, 13, 14, 15, 16, 17]
              in (n, k, s))"

definition formatDecimal :: "int \<times> int \<times> int \<Rightarrow> string" where
  "formatDecimal nks =
     (let (n, k, s) = nks; ds = digitsOf s
      in if - 5 \<le> n \<and> n \<le> 21 then
           (if k \<le> n then ds @ replicate (nat (n - k)) CHR ''0''
            else if 0 < n then take (nat n) ds @ ''.'' @ drop (nat n) ds
            else ''0.'' @ replicate (nat (- n)) CHR ''0'' @ ds)
         else
           (let e = n - 1;
                ex = (if e < 0 then ''-'' else ''+'') @ digitsOf \<bar>e\<bar>
            in if k = 1 then ds @ ''e'' @ ex
               else take 1 ds @ ''.'' @ drop 1 ds @ ''e'' @ ex))"

fun NumberToString :: "jsnum \<Rightarrow> string" where
  "NumberToString NaN = ''NaN''"
| "NumberToString PosInf = ''Infinity''"
| "NumberToString NegInf = ''-Infinity''"
| "NumberToString (Fin a) =
     (if a = 0 then ''0''
      else if a < 0 then ''-'' @ formatDecimal (decimalRepr (- a))
      else formatDecimal (decimalRepr a))"

text \<open>
  \<open>x.toFixed(2)\<close>: the integer \<open>n\<close> with \<open>n / 100\<close> nearest to \<open>x\<close> (the larger of two
  equally near ones), printed with two digits after the point; numbers from \<open>10 ^ 21\<close> on
  and the non-finite ones print as \<open>String(x)\<close>.
\<close>

fun toFixed2 :: "jsnum \<Rightarrow> string" where
  "toFixed2 (Fin x) =
     (if 10 ^ 21 \<le> \<bar>x\<bar> then NumberToString (Fin x)
      else
        let n = \<lfloor>\<bar>x\<bar> * 100 + 1 / 2\<rfloor>;
            m = digitsOf n;
            m' = replicate (3 - length m) CHR ''0'' @ m
        in (if x < 0 then ''-'' else '''') @ take (length m' - 2) m' @ ''.'' @ drop (length m' - 2) m')"
| "toFixed2 x = NumberToString x"

section \<open>The data model\<close>

text \<open>
  The types \<open>CellData\<close>, \<open>TableRow\<close> and \<open>BarrelData\<close> of the repository, which the two
  functions import. A cell is a value, which is a number, a string or \<open>null\<close>, with a
  confidence tag (\<open>high\<close>, \<open>medium\<close>, \<open>low\<close> or \<open>user\<close>); a row is an object that maps column
  names to cells; a dataset is an array of rows.
\<close>

datatype jsval = Null | Num jsnum | Str string

datatype confidence = High | Medium | Low | User

record cell =
  cellValue :: jsval
  confidence :: confidence

text \<open>
  A row is the list of the object's own properties in the order in which \<open>Object.keys\<close> and
  \<open>for ... in\<close> enumerate them: the keys that are array indices first, in ascending numeric
  order, then the other keys in the order of their creation. The prototype of a row is not
  part of the model. The code meets it in two places only: when it reads a column that the
  row does not have and whose name every object inherits (\<open>constructor\<close>, \<open>toString\<close>,
  \<open>__proto__\<close> and the like), where it finds the inherited object in place of \<open>undefined\<close>;
  and when it writes the column \<open>__proto__\<close> into a row that does not have it, which
  replaces the prototype and adds no column. The statements below that depend on the value
  of such a read are made for rows that have the column that is read.
\<close>

type_synonym row = "(string \<times> cell) list"

type_synonym dataset = "row list"

datatype error = TypeError

definition Number :: "jsval \<Rightarrow> jsnum" where
  "Number v = (case v of Null \<Rightarrow> Fin 0 | Num x \<Rightarrow> x | Str s \<Rightarrow> StringToNumber s)"

definition String :: "jsval \<Rightarrow> string" where
  "String v = (case v of Null \<Rightarrow> ''null'' | Num x \<Rightarrow> NumberToString x | Str s \<Rightarrow> s)"

definition keys :: "row \<Rightarrow> string list" where
  "keys r = map fst r"

text \<open>
  \<open>row[k]\<close> on the own properties of the row: the cell, or \<open>None\<close> for \<open>undefined\<close>.
\<close>

definition rowGet :: "row \<Rightarrow> string \<Rightarrow> cell option" where
  "rowGet r k = map_of r k"

definition isArrayIndex :: "string \<Rightarrow> bool" where
  "isArrayIndex k =
     (k \<noteq> [] \<and> list_all isDigit k \<and> (k = ''0'' \<or> hd k \<noteq> CHR ''0'') \<and>
      digitsValue 10 k \<le> 4294967294)"

fun replaceCell :: "string \<Rightarrow> cell \<Rightarrow> row \<Rightarrow> row" where
  "replaceCell k c [] = []"
| "replaceCell k c ((k', c') # r) =
     (if k' = k then (k, c) # r else (k', c') # replaceCell k c r)"

fun insertIndex :: "string \<Rightarrow> cell \<Rightarrow> row \<Rightarrow> row" where
  "insertIndex k c [] = [(k, c)]"
| "insertIndex k c ((k', c') # r) =
     (if isArrayIndex k' \<and> digitsValue 10 k' < digitsValue 10 k
      then (k', c') # insertIndex k c r
      else (k, c) # (k', c') # r)"

text \<open>
  \<open>row[k] = c\<close> on the own properties of the row: an existing property keeps its place; a
  new one goes to the end, or among the array indices when its key is one.
\<close>

definition rowSet :: "row \<Rightarrow> string \<Rightarrow> cell \<Rightarrow> row" where
  "rowSet r k c =
     (if rowGet r k \<noteq> None then replaceCell k c r
      else if isArrayIndex k then insertIndex k c r
      else r @ [(k, c)])"

text \<open>
  A \<open>Map\<close> is the list of its entries in insertion order. Its keys are compared by
  SameValueZero, which on the values of this model (one zero, one \<open>NaN\<close>) is equality.
  \<open>set\<close> on a key that is present replaces the value and keeps the entry's place.
\<close>

definition mapHas :: "('k \<times> 'v) list \<Rightarrow> 'k \<Rightarrow> bool" where
  "mapHas m k = (map_of m k \<noteq> None)"

definition mapGet :: "('k \<times> 'v) list \<Rightarrow> 'k \<Rightarrow> 'v option" where
  "mapGet m k = map_of m k"

fun mapSet :: "('k \<times> 'v) list \<Rightarrow> 'k \<Rightarrow> 'v \<Rightarrow> ('k \<times> 'v) list" where
  "mapSet [] k v = [(k, v)]"
| "mapSet ((k', v') # m) k v =
     (if k' = k then (k, v) # m else (k', v') # mapSet m k v)"

definition mapValues :: "('k \<times> 'v) list \<Rightarrow> 'v list" where
  "mapValues m = map snd m"

section \<open>Merging datasets: \<open>mergeBarrelData\<close>\<close>

text \<open>
  \<open>Array.prototype.sort\<close> with a comparison function. The result of the function is a
  number: negative puts the first argument first, positive the second, and zero or \<open>NaN\<close>
  leaves the two in their order. For a comparison function that is a consistent ordering
  the language fixes the result: the stable sort. That is what insertion computes here.
  The comparison function of \<open>mergeBarrelData\<close> is a consistent ordering when every key has
  a number. As soon as one key has none it answers zero for that row against every other,
  and the language then leaves the order to the engine: the result is some permutation of
  the rows, of which insertion computes one. Below, the statements about the order of the
  result are for keys that all have a number; the other statements hold of every
  permutation.
\<close>

fun insertBy :: "('a \<Rightarrow> 'a \<Rightarrow> jsnum) \<Rightarrow> 'a \<Rightarrow> 'a list \<Rightarrow> 'a list" where
  "insertBy cmp x [] = [x]"
| "insertBy cmp x (y # ys) =
     (if jless (Fin 0) (cmp x y) then y # insertBy cmp x ys else x # y # ys)"

definition sortBy :: "('a \<Rightarrow> 'a \<Rightarrow> jsnum) \<Rightarrow> 'a list \<Rightarrow> 'a list" where
  "sortBy cmp xs = foldr (insertBy cmp) xs []"

text \<open>
  \<open>row[primaryKey]?.value\<close>, with \<open>undefined\<close> (the row has no such cell) read as \<open>null\<close>:
  both loops skip a row on either.
\<close>

definition keyValue :: "string \<Rightarrow> row \<Rightarrow> jsval" where
  "keyValue primaryKey r =
     (case rowGet r primaryKey of None \<Rightarrow> Null | Some c \<Rightarrow> cellValue c)"

text \<open>The first loop: the rows of the existing data, keyed by the value of their primary cell.\<close>

definition indexRow :: "string \<Rightarrow> (jsval \<times> row) list \<Rightarrow> row \<Rightarrow> (jsval \<times> row) list" where
  "indexRow primaryKey m r =
     (let key = keyValue primaryKey r
      in if key \<noteq> Null then mapSet m key r else m)"

text \<open>
  The inner loop of the second: for every column of the new row, the cell is written into
  a copy of the existing row unless its value is \<open>null\<close>. (\<open>cellKey\<close> is a key of \<open>newRow\<close>,
  so \<open>newRow[cellKey]\<close> is always there.)
\<close>

definition mergeCell :: "row \<Rightarrow> row \<Rightarrow> string \<Rightarrow> row" where
  "mergeCell newRow mergedRow cellKey =
     (case rowGet newRow cellKey of
        None \<Rightarrow> mergedRow
      | Some c \<Rightarrow> if cellValue c \<noteq> Null then rowSet mergedRow cellKey c else mergedRow)"

definition mergeRow :: "row \<Rightarrow> row \<Rightarrow> row" where
  "mergeRow existingRow newRow = foldl (mergeCell newRow) existingRow (keys newRow)"

definition mergeNewRow :: "string \<Rightarrow> (jsval \<times> row) list \<Rightarrow> row \<Rightarrow> (jsval \<times> row) list" where
  "mergeNewRow primaryKey m newRow =
     (let key = keyValue primaryKey newRow
      in if key = Null then m
         else if mapHas m key then
           (case mapGet m key of
              Some existingRow \<Rightarrow> mapSet m key (mergeRow existingRow newRow)
            | None \<Rightarrow> m)
         else mapSet m key newRow)"

definition mergedDataMap :: "string \<Rightarrow> dataset \<Rightarrow> dataset \<Rightarrow> (jsval \<times> row) list" where
  "mergedDataMap primaryKey existingData newData =
     foldl (mergeNewRow primaryKey) (foldl (indexRow primaryKey) [] existingData) newData"

text \<open>
  The comparison function of the final sort. It reads \<open>a[primaryKey].value\<close>, which throws
  a \<open>TypeError\<close> on a row without the primary column; \<open>hasKey\<close> says when it does not.
\<close>

definition hasKey :: "string \<Rightarrow> row \<Rightarrow> bool" where
  "hasKey primaryKey r = (rowGet r primaryKey \<noteq> None)"

definition keyNumber :: "string \<Rightarrow> row \<Rightarrow> jsnum" where
  "keyNumber primaryKey r =
     (case rowGet r primaryKey of None \<Rightarrow> NaN | Some c \<Rightarrow> Number (cellValue c))"

definition compareRows :: "string \<Rightarrow> row \<Rightarrow> row \<Rightarrow> jsnum" where
  "compareRows primaryKey a b =
     (let valA = keyNumber primaryKey a; valB = keyNumber primaryKey b
      in if isNaN valA \<or> isNaN valB then Fin 0 else jsub valA valB)"

text \<open>
  Sorting an array of two or more rows calls the comparison function on every row, and the
  call throws on a row without the primary column; an array of at most one row is
  returned without a call.
\<close>

definition sortRows :: "string \<Rightarrow> dataset \<Rightarrow> error + dataset" where
  "sortRows primaryKey rows =
     (if length rows \<le> 1 \<or> list_all (hasKey primaryKey) rows
      then Inr (sortBy (compareRows primaryKey) rows)
      else Inl TypeError)"

text \<open>
  \<open>Object.keys(existingData[0])[0]\<close>: the name of the first column of the first row,
  \<open>undefined\<close> when that row has no column.
\<close>

definition primaryKeyOf :: "dataset \<Rightarrow> string option" where
  "primaryKeyOf existingData =
     (case existingData of
        [] \<Rightarrow> None
      | first # _ \<Rightarrow> (case keys first of [] \<Rightarrow> None | k # _ \<Rightarrow> Some k))"

text \<open>
  The function itself. \<open>!primaryKey\<close> holds of \<open>undefined\<close> and of the empty string.
\<close>

definition mergeBarrelData :: "dataset \<Rightarrow> dataset \<Rightarrow> error + dataset" where
  "mergeBarrelData existingData newData =
     (if newData = [] then Inr existingData
      else if existingData = [] then Inr newData
      else
        (case primaryKeyOf existingData of
           None \<Rightarrow> Inr newData
         | Some primaryKey \<Rightarrow>
             if primaryKey = [] then Inr newData
             else sortRows primaryKey (mapValues (mergedDataMap primaryKey existingData newData))))"

section \<open>The volume calculator: \<open>VolumeCalculator\<close>\<close>

definition toLowerChar :: "char \<Rightarrow> char" where
  "toLowerChar c =
     (let n = of_char c :: int
      in if (65 \<le> n \<and> n \<le> 90) \<or> (192 \<le> n \<and> n \<le> 222 \<and> n \<noteq> 215)
         then char_of (n + 32) else c)"

definition toLowerCase :: "string \<Rightarrow> string" where
  "toLowerCase s = map toLowerChar s"

text \<open>\<open>includesStr s t\<close> is \<open>s.includes(t)\<close>: \<open>t\<close> occurs in \<open>s\<close> as a substring.\<close>

fun includesStr :: "string \<Rightarrow> string \<Rightarrow> bool" where
  "includesStr [] t = (t = [])"
| "includesStr (c # cs) t = (startsWith (c # cs) t \<or> includesStr cs t)"

text \<open>
  The component derives three values from the dataset and keeps them until the dataset
  changes: the height column, the other columns, and an index of the rows by the number
  in their height cell. The height column is the first column whose name, in lower case,
  contains \<open>mouill\<close>, and the first column when there is none; it is \<open>undefined\<close> when the
  first row has no column at all.
\<close>

definition mentionsMouill :: "string \<Rightarrow> bool" where
  "mentionsMouill h = includesStr (toLowerCase h) ''mouill''"

definition findHeightKey :: "string list \<Rightarrow> string option" where
  "findHeightKey headers =
     (case List.find mentionsMouill headers of
        Some h \<Rightarrow> Some h
      | None \<Rightarrow> (case headers of [] \<Rightarrow> None | h # _ \<Rightarrow> Some h))"

text \<open>A property access with the key \<open>undefined\<close> reads the property named \<open>undefined\<close>.\<close>

definition propKey :: "string option \<Rightarrow> string" where
  "propKey k = (case k of None \<Rightarrow> ''undefined'' | Some h \<Rightarrow> h)"

text \<open>\<open>row[k].value\<close>, which throws when the row has no property \<open>k\<close>.\<close>

definition readValue :: "row \<Rightarrow> string \<Rightarrow> error + jsval" where
  "readValue r k = (case rowGet r k of None \<Rightarrow> Inl TypeError | Some c \<Rightarrow> Inr (cellValue c))"

fun buildMap :: "string \<Rightarrow> (jsnum \<times> row) list \<Rightarrow> dataset \<Rightarrow> error + (jsnum \<times> row) list" where
  "buildMap k m [] = Inr m"
| "buildMap k m (r # rs) =
     (case readValue r k of
        Inl e \<Rightarrow> Inl e
      | Inr v \<Rightarrow>
          (let height = Number v
           in if \<not> isNaN height then buildMap k (mapSet m height r) rs
              else buildMap k m rs))"

record memo =
  heightKey :: "string option"
  volumeKeys :: "string list"
  dataMap :: "(jsnum \<times> row) list"

definition isDisabled :: "dataset option \<Rightarrow> bool" where
  "isDisabled barrelData = (case barrelData of None \<Rightarrow> True | Some rows \<Rightarrow> rows = [])"

definition computeMemo :: "dataset option \<Rightarrow> error + memo" where
  "computeMemo barrelData =
     (case barrelData of
        None \<Rightarrow> Inr \<lparr>heightKey = None, volumeKeys = [], dataMap = []\<rparr>
      | Some [] \<Rightarrow> Inr \<lparr>heightKey = None, volumeKeys = [], dataMap = []\<rparr>
      | Some (first # rest) \<Rightarrow>
          (let headers = keys first;
               potentialHeightKey = findHeightKey headers;
               potentialVolumeKeys = filter (\<lambda>h. Some h \<noteq> potentialHeightKey) headers
           in case buildMap (propKey potentialHeightKey) [] (first # rest) of
                Inl e \<Rightarrow> Inl e
              | Inr m \<Rightarrow>
                  Inr \<lparr>heightKey = potentialHeightKey, volumeKeys = potentialVolumeKeys,
                       dataMap = m\<rparr>))"

text \<open>
  The state the handler writes: the displayed volume (a string, a number or \<open>null\<close>) and the
  note under it.
\<close>

record calcState =
  volume :: jsval
  calculationNote :: "string option"

text \<open>
  The scan for the closest row keeps the closest row so far and its distance, which starts
  at \<open>Infinity\<close>. A row's height is read here with \<open>parseFloat(String(...))\<close>.
\<close>

fun closestScan :: "string \<Rightarrow> jsnum \<Rightarrow> row option \<times> jsnum \<Rightarrow> dataset \<Rightarrow> error + row option \<times> jsnum" where
  "closestScan k height st [] = Inr st"
| "closestScan k height (closestRow, minDiff) (r # rs) =
     (case readValue r k of
        Inl e \<Rightarrow> Inl e
      | Inr v \<Rightarrow>
          (let rowHeight = parseFloat (String v)
           in if \<not> isNaN rowHeight then
                (let diff = jabs (jsub rowHeight height)
                 in if jless diff minDiff then closestScan k height (Some r, diff) rs
                    else closestScan k height (closestRow, minDiff) rs)
              else closestScan k height (closestRow, minDiff) rs))"

definition closest :: "dataset \<Rightarrow> string \<Rightarrow> string \<Rightarrow> jsnum \<Rightarrow> error + calcState" where
  "closest barrelData hk selectedVolumeKey height =
     (case closestScan hk height (None, PosInf) barrelData of
        Inl e \<Rightarrow> Inl e
      | Inr (None, _) \<Rightarrow> Inr \<lparr>volume = Str ''No match found'', calculationNote = None\<rparr>
      | Inr (Some closestRow, _) \<Rightarrow>
          (case readValue closestRow selectedVolumeKey of
             Inl e \<Rightarrow> Inl e
           | Inr v \<Rightarrow>
               (case readValue closestRow hk of
                  Inl e \<Rightarrow> Inl e
                | Inr h \<Rightarrow>
                    Inr \<lparr>volume = v,
                         calculationNote =
                           Some (''No exact match. Showing value for closest height: '' @
                                 String h @ ''.'')\<rparr>)))"

definition interpolate :: "row \<Rightarrow> row \<Rightarrow> string \<Rightarrow> jsnum \<Rightarrow> jsnum \<Rightarrow> jsnum \<Rightarrow> error + calcState" where
  "interpolate lowerRow upperRow selectedVolumeKey height lowerHeight upperHeight =
     (case readValue lowerRow selectedVolumeKey of
        Inl e \<Rightarrow> Inl e
      | Inr lv \<Rightarrow>
          (case readValue upperRow selectedVolumeKey of
             Inl e \<Rightarrow> Inl e
           | Inr uv \<Rightarrow>
               (let lowerVolume = Number lv; upperVolume = Number uv
                in if isNaN lowerVolume \<or> isNaN upperVolume then
                     Inr \<lparr>volume = Str ''Data not numeric'',
                          calculationNote = Some ''Cannot interpolate non-numeric values.''\<rparr>
                   else
                     (let heightFraction = jsub height lowerHeight;
                          volumeDifference = jsub upperVolume lowerVolume;
                          interpolatedVolume = jadd lowerVolume (jmul volumeDifference heightFraction)
                      in Inr \<lparr>volume = Str (toFixed2 interpolatedVolume),
                              calculationNote =
                                Some (''Interpolated between '' @ NumberToString lowerHeight @
                                      '' and '' @ NumberToString upperHeight @ ''.'')\<rparr>))))"

text \<open>The handler past its first guard: the dataset, the height column and the index are there.\<close>

definition calculate :: "dataset \<Rightarrow> string \<Rightarrow> (jsnum \<times> row) list \<Rightarrow> string \<Rightarrow> string \<Rightarrow> error + calcState" where
  "calculate barrelData hk dm selectedVolumeKey wetHeight =
     (let height = parseFloat wetHeight
      in if isNaN height then Inr \<lparr>volume = Str ''Invalid input'', calculationNote = None\<rparr>
         else
           (case mapGet dm height of
              Some r \<Rightarrow>
                (case readValue r selectedVolumeKey of
                   Inl e \<Rightarrow> Inl e
                 | Inr v \<Rightarrow>
                     Inr \<lparr>volume = v, calculationNote = Some ''Exact value found in table.''\<rparr>)
            | None \<Rightarrow>
                (let lowerHeight = Math_floor height;
                     upperHeight = Math_ceil height
                 in case (mapGet dm lowerHeight, mapGet dm upperHeight) of
                      (Some lowerRow, Some upperRow) \<Rightarrow>
                        interpolate lowerRow upperRow selectedVolumeKey height lowerHeight upperHeight
                    | _ \<Rightarrow> closest barrelData hk selectedVolumeKey height)))"

text \<open>
  \<open>handleCalculate\<close>, from the dataset, the selected volume column and the text of the
  height field to the state it leaves, or to the \<open>TypeError\<close> it throws. Building the index
  throws on a row without the height column, before the handler can run.
\<close>

definition handleCalculate :: "dataset option \<Rightarrow> string \<Rightarrow> string \<Rightarrow> error + calcState" where
  "handleCalculate barrelData selectedVolumeKey wetHeight =
     (case computeMemo barrelData of
        Inl e \<Rightarrow> Inl e
      | Inr mm \<Rightarrow>
          (case (barrelData, heightKey mm) of
             (Some rows, Some hk) \<Rightarrow>
               if isDisabled barrelData \<or> hk = [] \<or> selectedVolumeKey = [] \<or> dataMap mm = []
               then Inr \<lparr>volume = Str ''N/A'', calculationNote = None\<rparr>
               else calculate rows hk (dataMap mm) selectedVolumeKey wetHeight
           | _ \<Rightarrow> Inr \<lparr>volume = Str ''N/A'', calculationNote = None\<rparr>))"

section \<open>Notions used in the statements\<close>

text \<open>
  A number kept in a cell is a binary64 value; strings and \<open>null\<close> are as they are.
\<close>

definition wfValue :: "jsval \<Rightarrow> bool" where
  "wfValue v = (case v of Num x \<Rightarrow> isDouble x | _ \<Rightarrow> True)"

text \<open>The primary value of a row coerces to a number (not to \<open>NaN\<close>).\<close>

definition numericKey :: "string \<Rightarrow> row \<Rightarrow> bool" where
  "numericKey pk r = (\<not> isNaN (Number (keyValue pk r)) \<and> wfValue (keyValue pk r))"

text \<open>
  \<open>keyLe pk a b\<close>: the key number of \<open>a\<close> is not above that of \<open>b\<close>. A dataset is ordered
  when every row stands in that relation to every later row.
\<close>

definition keyLe :: "string \<Rightarrow> row \<Rightarrow> row \<Rightarrow> bool" where
  "keyLe pk a b = (\<not> jless (keyNumber pk b) (keyNumber pk a))"

definition keyOrdered :: "string \<Rightarrow> dataset \<Rightarrow> bool" where
  "keyOrdered pk rows = sorted_wrt (keyLe pk) rows"

text \<open>The row has no cell in the column, or a cell whose value is \<open>null\<close>.\<close>

definition blankAt :: "row \<Rightarrow> string \<Rightarrow> bool" where
  "blankAt r col = (case rowGet r col of None \<Rightarrow> True | Some c \<Rightarrow> cellValue c = Null)"

text \<open>
  Two invariants of the proofs: every entry of the merged map is kept under the primary value
  of its row, which is not \<open>null\<close>; and a row whose key number is a binary64 value other than
  \<open>NaN\<close>.
\<close>

definition keyed :: "string \<Rightarrow> (jsval \<times> row) list \<Rightarrow> bool" where
  "keyed pk m = list_all (\<lambda>(k, r). keyValue pk r = k \<and> k \<noteq> Null) m"

definition numKey :: "string \<Rightarrow> row \<Rightarrow> bool" where
  "numKey pk r = (\<not> isNaN (keyNumber pk r) \<and> isDouble (keyNumber pk r))"

text \<open>
  For the calculator: the number under which the index keeps a row (\<open>Number\<close> of its height
  cell); the row the index holds for a number, which is the last row of the dataset kept
  under it; and the distance of a row from the queried height as the closest-row scan
  computes it (from \<open>parseFloat(String(...))\<close> of the height cell).
\<close>

definition heightNumber :: "string \<Rightarrow> row \<Rightarrow> jsnum" where
  "heightNumber hk r = Number (keyValue hk r)"

definition rowAt :: "string \<Rightarrow> dataset \<Rightarrow> jsnum \<Rightarrow> row option" where
  "rowAt hk rows x =
     (case filter (\<lambda>r. heightNumber hk r = x) rows of
        [] \<Rightarrow> None
      | r # rs \<Rightarrow> Some (last (r # rs)))"

definition distance :: "string \<Rightarrow> jsnum \<Rightarrow> row \<Rightarrow> jsnum" where
  "distance hk height r = jabs (jsub (parseFloat (String (keyValue hk r))) height)"

text \<open>
  A value is numeric when it is a finite number, or a string that is not blank and that
  \<open>Number\<close> reads as a finite number; \<open>null\<close> is not. A row has a numeric height when the index
  keeps it (\<open>Number\<close> of its height cell is not \<open>NaN\<close>), and its height reads alike when the
  scan (\<open>parseFloat(String(...))\<close>) and the index (\<open>Number\<close>) find the same number in the cell.
\<close>

definition isFinite :: "jsnum \<Rightarrow> bool" where
  "isFinite x = (case x of Fin a \<Rightarrow> True | _ \<Rightarrow> False)"

definition numericValue :: "jsval \<Rightarrow> bool" where
  "numericValue v =
     (case v of
        Null \<Rightarrow> False
      | Num x \<Rightarrow> isFinite x
      | Str s \<Rightarrow> \<not> list_all isWhiteSpace s \<and> isFinite (StringToNumber s))"

definition numericHeight :: "string \<Rightarrow> row \<Rightarrow> bool" where
  "numericHeight hk r = (\<not> isNaN (heightNumber hk r))"

definition readsAlike :: "string \<Rightarrow> row \<Rightarrow> bool" where
  "readsAlike hk r = (parseFloat (String (keyValue hk r)) = heightNumber hk r)"

text \<open>A cell of high confidence, for the examples.\<close>

definition high :: "jsval \<Rightarrow> cell" where
  "high v = \<lparr>cellValue = v, confidence = High\<rparr>"

section \<open>Rounding to binary64\<close>

lemma ndigits_nonneg: "0 \<le> ndigits b n"
proof (induction b n rule: ndigits.induct)
  case (1 b n)
  then show ?case by (subst ndigits.simps) auto
qed

lemma ndigits_bounds:
  "1 < b \<Longrightarrow> 0 < n \<Longrightarrow> b ^ nat (ndigits b n - 1) \<le> n \<and> n < b ^ nat (ndigits b n)"
proof (induction b n rule: ndigits.induct)
  case (1 b n)
  have step: "ndigits b n = ndigits b (n div b) + 1"
    using "1.prems" by (subst ndigits.simps) simp
  show ?case
  proof (cases "n div b = 0")
    case True
    then have "n < b" using "1.prems" by presburger
    moreover have "ndigits b (n div b) = 0"
      using True by (subst ndigits.simps) simp
    ultimately show ?thesis using "1.prems" step by simp
  next
    case False
    moreover have "0 \<le> n div b"
      using "1.prems" by (simp add: pos_imp_zdiv_nonneg_iff)
    ultimately have pos: "0 < n div b" by simp
    from "1.IH" "1.prems" pos
    have ih: "b ^ nat (ndigits b (n div b) - 1) \<le> n div b" "n div b < b ^ nat (ndigits b (n div b))"
      by auto
    have dpos: "0 < ndigits b (n div b)"
      using pos "1.prems" ndigits_nonneg[of b "n div b div b"]
      by (subst ndigits.simps) simp
    have e1: "nat (ndigits b n - 1) = Suc (nat (ndigits b (n div b) - 1))"
      using step dpos by simp
    have e2: "nat (ndigits b n) = Suc (nat (ndigits b (n div b)))"
      using step dpos by simp
    have "b * b ^ nat (ndigits b (n div b) - 1) \<le> b * (n div b)"
      using ih(1) "1.prems" by simp
    also have "\<dots> \<le> n"
      using "1.prems" mult_div_mod_eq[of b n] pos_mod_sign[of b n] by linarith
    finally have lo: "b ^ nat (ndigits b n - 1) \<le> n" by (simp add: e1)
    have "n < b * (n div b) + b"
      using "1.prems" mult_div_mod_eq[of b n] pos_mod_bound[of b n] by linarith
    then have "n < b * (n div b + 1)" by (simp add: algebra_simps)
    also have "\<dots> \<le> b * b ^ nat (ndigits b (n div b))"
      using ih(2) "1.prems" by simp
    finally have hi: "n < b ^ nat (ndigits b n)" by (simp add: e2)
    from lo hi show ?thesis by simp
  qed
qed

lemma ndigits_powi:
  assumes "1 < b" "0 < n"
  shows "rat_of_int b powi (ndigits b n - 1) \<le> rat_of_int n"
    and "rat_of_int n < rat_of_int b powi (ndigits b n)"
proof -
  from ndigits_bounds[OF assms]
  have lo: "b ^ nat (ndigits b n - 1) \<le> n" and hi: "n < b ^ nat (ndigits b n)" by auto
  have dpos: "1 \<le> ndigits b n"
  proof (rule ccontr)
    assume "\<not> 1 \<le> ndigits b n"
    then have "nat (ndigits b n) = 0" by simp
    with hi assms show False by simp
  qed
  have "rat_of_int (b ^ nat (ndigits b n - 1)) \<le> rat_of_int n"
    using lo by (simp only: of_int_le_iff)
  then show "rat_of_int b powi (ndigits b n - 1) \<le> rat_of_int n"
    using dpos by (simp add: power_int_def)
  have "rat_of_int n < rat_of_int (b ^ nat (ndigits b n))"
    using hi by (simp only: of_int_less_iff)
  then show "rat_of_int n < rat_of_int b powi (ndigits b n)"
    using dpos by (simp add: power_int_def)
qed

lemma quotient_of_pos:
  assumes "0 < a" "quotient_of a = (p, q)"
  shows "0 < p" "0 < q" "a = rat_of_int p / rat_of_int q"
proof -
  show q: "0 < q" using assms(2) by (rule quotient_of_denom_pos)
  show a: "a = rat_of_int p / rat_of_int q" using assms(2) by (rule quotient_of_div)
  show "0 < p" using assms(1) q unfolding a by (simp add: zero_less_divide_iff)
qed

lemma ilog_bounds:
  assumes b: "1 < b" and a: "0 < a"
  shows "rat_of_int b powi (ilog b a) \<le> a" and "a < rat_of_int b powi (ilog b a + 1)"
proof -
  obtain p q where pq: "quotient_of a = (p, q)" by (cases "quotient_of a")
  note pos = quotient_of_pos[OF a pq]
  let ?B = "rat_of_int b"
  let ?d = "ndigits b p - ndigits b q"
  have B: "1 < ?B" "0 < ?B" "?B \<noteq> 0" using b by auto
  note P = ndigits_powi[OF b pos(1)]
  note Q = ndigits_powi[OF b pos(2)]
  have qpos: "0 < rat_of_int q" using pos(2) by simp
  have ppos: "0 < rat_of_int p" using pos(1) by simp
  have il: "ilog b a = (if ?B powi ?d \<le> a then ?d else ?d - 1)"
    by (simp add: ilog_def pq Let_def)
  have up: "a < ?B powi (?d + 1)"
  proof -
    have "a * rat_of_int q = rat_of_int p" using pos(3) qpos by simp
    also have "\<dots> < ?B powi (ndigits b p)" by (rule P(2))
    also have "\<dots> = ?B powi (?d + 1) * ?B powi (ndigits b q - 1)"
      using B(3) by (simp flip: power_int_add)
    also have "\<dots> \<le> ?B powi (?d + 1) * rat_of_int q"
      using Q(1) B(2) by (simp add: mult_left_mono)
    finally show ?thesis using qpos by simp
  qed
  have lo: "?B powi (?d - 1) < a"
  proof -
    have "?B powi (?d - 1) * rat_of_int q < ?B powi (?d - 1) * ?B powi (ndigits b q)"
      using Q(2) B(2) by (simp add: mult_strict_left_mono)
    also have "\<dots> = ?B powi (ndigits b p - 1)"
      using B(3) by (simp flip: power_int_add)
    also have "\<dots> \<le> rat_of_int p" by (rule P(1))
    also have "\<dots> = a * rat_of_int q" using pos(3) qpos by simp
    finally show ?thesis using qpos by simp
  qed
  show "?B powi (ilog b a) \<le> a" using lo by (simp add: il)
  show "a < ?B powi (ilog b a + 1)" using up by (auto simp: il not_le)
qed

lemma ilog_unique:
  assumes b: "1 < b" and lo: "rat_of_int b powi e \<le> a" and hi: "a < rat_of_int b powi (e + 1)"
  shows "ilog b a = e"
proof -
  let ?B = "rat_of_int b"
  have B: "1 < ?B" using b by simp
  have "0 < ?B powi e" using B by simp
  with lo have a: "0 < a" by simp
  note I = ilog_bounds[OF b a]
  have "\<not> ilog b a + 1 \<le> e"
  proof
    assume "ilog b a + 1 \<le> e"
    then have "?B powi (ilog b a + 1) \<le> ?B powi e"
      using B by (intro power_int_increasing) auto
    with lo I(2) show False by simp
  qed
  moreover have "\<not> e + 1 \<le> ilog b a"
  proof
    assume "e + 1 \<le> ilog b a"
    then have "?B powi (e + 1) \<le> ?B powi (ilog b a)"
      using B by (intro power_int_increasing) auto
    with hi I(1) show False by simp
  qed
  ultimately show ?thesis by simp
qed



lemma round_half_even_of_int [simp]: "round_half_even (rat_of_int n) = n"
  by (simp add: round_half_even_def)

lemma round_half_even_ge_floor: "\<lfloor>r\<rfloor> \<le> round_half_even r"
  by (simp add: round_half_even_def Let_def)

lemma round_half_even_pos: "1 \<le> r \<Longrightarrow> 1 \<le> round_half_even r"
proof -
  assume "1 \<le> r"
  then have "1 \<le> \<lfloor>r\<rfloor>" by (simp add: le_floor_iff)
  with round_half_even_ge_floor[of r] show ?thesis by linarith
qed

lemma round_half_even_nonneg: "0 \<le> r \<Longrightarrow> 0 \<le> round_half_even r"
proof -
  assume "0 \<le> r"
  then have "0 \<le> \<lfloor>r\<rfloor>" by simp
  with round_half_even_ge_floor[of r] show ?thesis by linarith
qed

lemma rd_pos_nonneg: "0 < a \<Longrightarrow> 0 \<le> rd_pos a"
  by (simp add: rd_pos_def Let_def round_half_even_nonneg)

lemma rd_pos_exact:
  assumes m: "0 < m" "m < 2 ^ 53" and k: "- 1074 \<le> k"
  shows "rd_pos (rat_of_int m * 2 powi k) = rat_of_int m * 2 powi k"
proof -
  define a where "a = rat_of_int m * 2 powi k"
  define e where "e = max (ilog 2 a) (- 1022)"
  have a: "0 < a" using m by (simp add: a_def)
  have "rat_of_int m < rat_of_int (2 ^ 53)" using m(2) by (simp only: of_int_less_iff)
  then have "rat_of_int m < 2 ^ 53" by simp
  then have "a < 2 ^ 53 * 2 powi k"
    unfolding a_def by (intro mult_strict_right_mono) auto
  also have "\<dots> = 2 powi (53 + k)"
    by (simp add: power_int_add)
  finally have lt: "a < 2 powi (53 + k)" .
  have "\<not> 53 + k \<le> ilog 2 a"
  proof
    assume "53 + k \<le> ilog 2 a"
    then have "(2::rat) powi (53 + k) \<le> 2 powi (ilog 2 a)"
      by (intro power_int_increasing) auto
    with ilog_bounds(1)[of 2 a] a lt show False by simp
  qed
  then have le: "e - 52 \<le> k" using k by (simp add: e_def)
  define j where "j = nat (k - (e - 52))"
  have kj: "k = (e - 52) + int j" using le by (simp add: j_def)
  have pk: "(2::rat) powi k = 2 powi (e - 52) * 2 ^ j"
    by (subst kj, subst power_int_add) auto
  have "a / 2 powi (e - 52) = rat_of_int m * 2 ^ j"
    by (simp add: a_def pk)
  also have "\<dots> = rat_of_int (m * 2 ^ j)" by simp
  finally have q: "a / 2 powi (e - 52) = rat_of_int (m * 2 ^ j)" .
  have "rd_pos a = rat_of_int (round_half_even (a / 2 powi (e - 52))) * 2 powi (e - 52)"
    by (simp add: rd_pos_def Let_def e_def)
  also have "\<dots> = rat_of_int (m * 2 ^ j) * 2 powi (e - 52)"
    by (simp only: q round_half_even_of_int)
  also have "\<dots> = a"
    by (simp add: a_def pk)
  finally show ?thesis by (simp add: a_def)
qed

lemma rd_pos_positive:
  assumes "2 powi (- 1074) \<le> a"
  shows "0 < rd_pos a"
proof -
  define e where "e = max (ilog 2 a) (- 1022)"
  define q where "q = (2::rat) powi (e - 52)"
  have "(0::rat) < 2 powi (- 1074)" by (rule zero_less_power_int) simp
  from this assms have a: "0 < a" by (rule less_le_trans)
  have q: "0 < q" by (simp add: q_def)
  have "q \<le> a"
  proof (cases "- 1022 \<le> ilog 2 a")
    case True
    then have "e = ilog 2 a" by (simp add: e_def)
    then have "q = 2 powi (ilog 2 a - 52)" by (simp add: q_def)
    also have "\<dots> \<le> 2 powi (ilog 2 a)" by (intro power_int_increasing) auto
    also have "\<dots> \<le> a" using ilog_bounds(1)[of 2 a] a by simp
    finally show ?thesis .
  next
    case False
    then have "e = - 1022" by (simp add: e_def)
    then have "q = 2 powi (- 1074)" by (simp only: q_def) simp
    with assms show ?thesis by (simp only:)
  qed
  then have "1 \<le> a / q" using q by (simp add: le_divide_eq)
  then have "1 \<le> round_half_even (a / q)" by (rule round_half_even_pos)
  then have "0 < rat_of_int (round_half_even (a / q)) * q" using q by simp
  then show ?thesis by (simp add: rd_pos_def Let_def e_def q_def)
qed

lemma rd_pos_grid:
  "\<exists>n. rd_pos a = rat_of_int n * 2 powi (- 1074)"
proof -
  define e where "e = max (ilog 2 a) (- 1022)"
  define j where "j = nat (e + 1022)"
  have "- 1022 \<le> e" by (simp add: e_def)
  then have e: "e - 52 = - 1074 + int j" by (simp add: j_def)
  have p: "(2::rat) powi (e - 52) = 2 powi (- 1074) * 2 ^ j"
    by (subst e, subst power_int_add) auto
  have "rd_pos a = rat_of_int (round_half_even (a / 2 powi (e - 52))) * 2 powi (e - 52)"
    by (simp add: rd_pos_def Let_def e_def)
  also have "\<dots> = rat_of_int (round_half_even (a / 2 powi (e - 52)) * 2 ^ j) * 2 powi (- 1074)"
    by (simp only: p of_int_mult of_int_power of_int_numeral mult_ac)
  finally show ?thesis by blast
qed



lemma rd_positive_imp: "jless (Fin 0) (rd x) \<Longrightarrow> 0 < x"
proof (rule ccontr)
  assume pos: "jless (Fin 0) (rd x)" and "\<not> 0 < x"
  then consider "x = 0" | "x < 0" by linarith
  then show False
  proof cases
    case 1
    with pos show False by (simp add: rd_def)
  next
    case 2
    then have "0 \<le> rd_pos \<bar>x\<bar>" by (intro rd_pos_nonneg) simp
    with 2 pos show False by (simp add: rd_def Let_def split: if_splits)
  qed
qed

lemma rd_positive:
  assumes "2 powi (- 1074) \<le> x"
  shows "jless (Fin 0) (rd x)"
proof -
  have "(0::rat) < 2 powi (- 1074)" by (rule zero_less_power_int) simp
  from this assms have x: "0 < x" by (rule less_le_trans)
  then have "\<bar>x\<bar> = x" by simp
  with assms have "0 < rd_pos \<bar>x\<bar>" by (simp only: rd_pos_positive)
  with x show ?thesis by (simp add: rd_def Let_def)
qed

lemma isDouble_grid:
  assumes "isDouble (Fin a)"
  shows "\<exists>n. a = rat_of_int n * 2 powi (- 1074)"
proof (cases "a = 0")
  case True
  then have "a = rat_of_int 0 * 2 powi (- 1074)" by simp
  then show ?thesis by blast
next
  case False
  obtain n where n: "rd_pos \<bar>a\<bar> = rat_of_int n * 2 powi (- 1074)"
    using rd_pos_grid by blast
  from assms False have "a = (if a < 0 then - rd_pos \<bar>a\<bar> else rd_pos \<bar>a\<bar>)"
    by (simp add: rd_def Let_def split: if_splits)
  then have "a = rat_of_int (if a < 0 then - n else n) * 2 powi (- 1074)"
    by (simp only: n) (simp split: if_splits)
  then show ?thesis by blast
qed

lemma double_gap:
  assumes "isDouble (Fin a)" "isDouble (Fin b)" "b < a"
  shows "2 powi (- 1074) \<le> a - b"
proof -
  define u where "u = (2::rat) powi (- 1074)"
  have u: "0 < u" unfolding u_def by (rule zero_less_power_int) simp
  obtain na where na: "a = rat_of_int na * u"
    using isDouble_grid[OF assms(1)] unfolding u_def by blast
  obtain nb where nb: "b = rat_of_int nb * u"
    using isDouble_grid[OF assms(2)] unfolding u_def by blast
  from assms(3) u have "rat_of_int nb < rat_of_int na"
    unfolding na nb by (simp only: mult_less_cancel_right_pos)
  then have "nb < na" by (simp only: of_int_less_iff)
  then have "1 \<le> na - nb" by simp
  then have "rat_of_int 1 \<le> rat_of_int (na - nb)" by (simp only: of_int_le_iff)
  then have "1 * u \<le> rat_of_int (na - nb) * u"
    using u by (intro mult_right_mono) auto
  then have "u \<le> a - b" unfolding na nb by (simp add: algebra_simps)
  then show ?thesis by (simp only: u_def)
qed

lemma jsub_pos_imp: "jless (Fin 0) (jsub x y) \<Longrightarrow> jless y x"
proof (cases x; cases y)
  fix a b assume "x = Fin a" "y = Fin b" and pos: "jless (Fin 0) (jsub x y)"
  then have "jless (Fin 0) (rd (a - b))" by (simp add: jsub_def)
  then have "0 < a - b" by (rule rd_positive_imp)
  with \<open>x = Fin a\<close> \<open>y = Fin b\<close> show ?thesis by simp
qed (simp_all add: jsub_def)

lemma jsub_sign:
  assumes "isDouble x" "isDouble y" "x \<noteq> NaN" "y \<noteq> NaN"
  shows "jless (Fin 0) (jsub x y) \<longleftrightarrow> jless y x"
proof
  assume "jless (Fin 0) (jsub x y)"
  then show "jless y x" by (rule jsub_pos_imp)
next
  assume lt: "jless y x"
  show "jless (Fin 0) (jsub x y)"
  proof (cases x; cases y)
    fix a b assume xy: "x = Fin a" "y = Fin b"
    with lt assms have "2 powi (- 1074) \<le> a - b" by (intro double_gap) simp_all
    then have "jless (Fin 0) (rd (a - b))" by (rule rd_positive)
    with xy show ?thesis by (simp add: jsub_def)
  qed (use lt assms in \<open>simp_all add: jsub_def\<close>)
qed

lemma not_jless_trans:
  "\<not> jless b a \<Longrightarrow> \<not> jless c b \<Longrightarrow> b \<noteq> NaN \<Longrightarrow> \<not> jless c a"
  by (cases a; cases b; cases c) simp_all

lemma jless_imp_not: "jless a b \<Longrightarrow> \<not> jless b a"
  by (cases a; cases b) simp_all



lemma round_half_even_le: "round_half_even r \<le> \<lfloor>r\<rfloor> + 1"
  by (simp add: round_half_even_def Let_def)

lemma rd_zero [simp]: "rd 0 = Fin 0"
  by (simp add: rd_def)

lemma pow2_split: "(2::rat) powi (e + 1) = 2 ^ 53 * 2 powi (e - 52)"
proof -
  have "e + 1 = 53 + (e - 52)" by simp
  then have "(2::rat) powi (e + 1) = 2 powi (53 + (e - 52))" by (rule arg_cong)
  also have "\<dots> = 2 powi 53 * 2 powi (e - 52)" by (rule power_int_add) simp
  finally show ?thesis by simp
qed

lemma rd_pos_idem:
  assumes a: "0 < a"
  shows "rd_pos (rd_pos a) = rd_pos a"
proof -
  define e where "e = max (ilog 2 a) (- 1022)"
  define q where "q = (2::rat) powi (e - 52)"
  define M where "M = round_half_even (a / q)"
  have q: "0 < q" by (simp add: q_def)
  have e: "- 1022 \<le> e" "ilog 2 a \<le> e" by (simp_all add: e_def)
  have r: "rd_pos a = rat_of_int M * q"
    by (simp add: rd_pos_def Let_def e_def q_def M_def)
  have "a < 2 powi (ilog 2 a + 1)" using ilog_bounds(2)[of 2 a] a by simp
  also have "\<dots> \<le> 2 powi (e + 1)" using e(2) by (intro power_int_increasing) auto
  also have "\<dots> = 2 ^ 53 * q" unfolding q_def by (rule pow2_split)
  finally have "a / q < 2 ^ 53" using q by (simp add: divide_less_eq)
  then have "a / q < rat_of_int (2 ^ 53)" by simp
  then have "\<lfloor>a / q\<rfloor> < 2 ^ 53" by (simp only: floor_less_iff)
  with round_half_even_le[of "a / q"] have Mle: "M \<le> 2 ^ 53" unfolding M_def by linarith
  have "0 \<le> a / q" using a q by simp
  then have M0: "0 \<le> M" unfolding M_def by (rule round_half_even_nonneg)
  consider "M = 0" | "M = 2 ^ 53" | "0 < M" "M < 2 ^ 53" using Mle M0 by linarith
  then show ?thesis
  proof cases
    case 1
    then have "rd_pos a = 0" by (simp add: r)
    moreover have "rd_pos 0 = 0" by (simp add: rd_pos_def Let_def round_half_even_def)
    ultimately show ?thesis by simp
  next
    case 2
    have "rat_of_int M * q = 2 ^ 53 * q" by (simp add: 2)
    also have "\<dots> = rat_of_int 1 * 2 powi (e + 1)" unfolding q_def
      by (simp only: pow2_split of_int_1 mult_1)
    finally have eq: "rd_pos a = rat_of_int 1 * 2 powi (e + 1)" by (simp only: r)
    have "rd_pos (rat_of_int 1 * 2 powi (e + 1)) = rat_of_int 1 * 2 powi (e + 1)"
      using e(1) by (intro rd_pos_exact) auto
    then show ?thesis by (simp only: eq)
  next
    case 3
    have "rd_pos (rat_of_int M * 2 powi (e - 52)) = rat_of_int M * 2 powi (e - 52)"
      using 3 e(1) by (intro rd_pos_exact) auto
    then show ?thesis by (simp only: r q_def)
  qed
qed

lemma isDouble_rd: "isDouble (rd x)"
proof (cases "x = 0")
  case True
  then show ?thesis by (simp add: rd_def)
next
  case False
  define Y where "Y = rd_pos \<bar>x\<bar>"
  have Y0: "0 \<le> Y" unfolding Y_def using False by (intro rd_pos_nonneg) simp
  have idem: "rd_pos Y = Y" unfolding Y_def using False by (intro rd_pos_idem) simp
  show ?thesis
  proof (cases "2 ^ 1024 \<le> Y")
    case True
    then show ?thesis using False by (simp add: rd_def Let_def Y_def)
  next
    case big: False
    show ?thesis
    proof (cases "Y = 0")
      case True
      then have "rd x = Fin 0" using False by (simp add: rd_def Let_def Y_def)
      then show ?thesis by (simp add: rd_def)
    next
      case Ypos: False
      with Y0 have Yp: "0 < Y" by simp
      have rx: "rd x = Fin (if x < 0 then - Y else Y)"
        using False big by (simp add: rd_def Let_def Y_def)
      have "rd (if x < 0 then - Y else Y) = Fin (if x < 0 then - Y else Y)"
        using Yp big idem by (simp add: rd_def Let_def)
      then show ?thesis by (simp only: rx isDouble.simps)
    qed
  qed
qed

lemma isDouble_jneg: "isDouble x \<Longrightarrow> isDouble (jneg x)"
proof (cases x)
  case (Fin a)
  assume "isDouble x"
  then have "rd a = Fin a" using Fin by simp
  then have "rd (- a) = Fin (- a)"
    by (auto simp: rd_def Let_def split: if_splits)
  then show ?thesis using Fin by simp
qed simp_all

lemma isDouble_jadd: "isDouble (jadd x y)"
  by (cases x; cases y) (simp_all add: isDouble_rd)

lemma isDouble_jsub: "isDouble (jsub x y)"
  by (simp add: jsub_def isDouble_jadd)

lemma isDouble_jmul: "isDouble (jmul x y)"
  by (cases x; cases y) (simp_all add: isDouble_rd Let_def)

lemma isDouble_parseUnsignedDecimal:
  "parseUnsignedDecimal s = Some (v, r) \<Longrightarrow> isDouble v"
  by (auto simp: parseUnsignedDecimal_def Let_def isDouble_rd split: if_splits prod.splits)

lemma isDouble_parseStrDecimalLiteral:
  "parseStrDecimalLiteral s = Some (v, r) \<Longrightarrow> isDouble v"
  by (auto simp: parseStrDecimalLiteral_def isDouble_jneg
      dest: isDouble_parseUnsignedDecimal split: list.splits if_splits)

lemma isDouble_parseFloat: "isDouble (parseFloat s)"
  by (auto simp: parseFloat_def dest: isDouble_parseStrDecimalLiteral split: option.splits)

lemma isDouble_StringToNumber: "isDouble (StringToNumber s)"
  by (auto simp: StringToNumber_def Let_def parseRadix_def isDouble_rd
      dest: isDouble_parseStrDecimalLiteral split: option.splits list.splits prod.splits)



lemma rd_of_int:
  assumes "\<bar>m\<bar> < 2 ^ 53"
  shows "rd (rat_of_int m) = Fin (rat_of_int m)"
proof (cases "m = 0")
  case True
  then show ?thesis by simp
next
  case False
  then have pos: "0 < \<bar>m\<bar>" by simp
  have "rd_pos (rat_of_int \<bar>m\<bar> * 2 powi 0) = rat_of_int \<bar>m\<bar> * 2 powi 0"
    using pos assms by (intro rd_pos_exact) auto
  then have e: "rd_pos \<bar>rat_of_int m\<bar> = rat_of_int \<bar>m\<bar>" by simp
  have "rat_of_int \<bar>m\<bar> < rat_of_int (2 ^ 53)" using assms by (simp only: of_int_less_iff)
  also have "\<dots> < 2 ^ 1024" by simp
  finally have small: "\<not> 2 ^ 1024 \<le> rat_of_int \<bar>m\<bar>" by simp
  show ?thesis using False small by (simp add: rd_def Let_def e)
qed

lemma rd_numeral [simp]:
  "numeral w < (2 ^ 53 :: int) \<Longrightarrow> rd (numeral w) = Fin (numeral w)"
  "numeral w < (2 ^ 53 :: int) \<Longrightarrow> rd (- numeral w) = Fin (- numeral w)"
  "rd 1 = Fin 1"
  using rd_of_int[of "numeral w"] rd_of_int[of "- numeral w"] rd_of_int[of 1] by simp_all

section \<open>Rows and maps\<close>

lemma map_of_mapSet:
  "map_of (mapSet m k v) k' = (if k' = k then Some v else map_of m k')"
  by (induction m) auto

lemma keys_mapSet:
  "map fst (mapSet m k v) = (if k \<in> fst ` set m then map fst m else map fst m @ [k])"
  by (induction m) force+

lemma distinct_mapSet:
  "distinct (map fst m) \<Longrightarrow> distinct (map fst (mapSet m k v))"
  by (simp add: keys_mapSet)

lemma mapSet_same:
  "map_of m k = Some v \<Longrightarrow> mapSet m k v = m"
  by (induction m) (auto split: if_splits)

lemma set_mapSet_subset:
  "(k', v') \<in> set (mapSet m k v) \<Longrightarrow> (k', v') = (k, v) \<or> (k', v') \<in> set m"
  by (induction m) (auto split: if_splits)

lemma map_of_replaceCell:
  "map_of (replaceCell k c r) k' = (if k' = k \<and> map_of r k \<noteq> None then Some c else map_of r k')"
  by (induction r) auto

lemma map_of_insertIndex:
  "map_of r k = None \<Longrightarrow> map_of (insertIndex k c r) k' = (if k' = k then Some c else map_of r k')"
  by (induction r) (auto split: if_splits)

lemma rowGet_rowSet:
  "rowGet (rowSet r k c) k' = (if k' = k then Some c else rowGet r k')"
  by (auto simp: rowGet_def rowSet_def map_of_replaceCell map_of_insertIndex map_add_def
      split: option.splits)

lemma rowGet_mergeCell:
  "rowGet (mergeCell n e k) col =
     (if col = k then (case rowGet n k of Some c \<Rightarrow> if cellValue c \<noteq> Null then Some c else rowGet e col
                       | None \<Rightarrow> rowGet e col)
      else rowGet e col)"
  by (auto simp: mergeCell_def rowGet_rowSet split: option.splits)

lemma rowGet_foldl_mergeCell:
  "rowGet (foldl (mergeCell n) e ks) col =
     (if col \<in> set ks then (case rowGet n col of Some c \<Rightarrow> if cellValue c \<noteq> Null then Some c else rowGet e col
                       | None \<Rightarrow> rowGet e col)
      else rowGet e col)"
  by (induction ks arbitrary: e) (auto simp: rowGet_mergeCell split: option.splits)

lemma rowGet_None_iff: "rowGet n col = None \<longleftrightarrow> col \<notin> set (keys n)"
  by (simp add: rowGet_def keys_def map_of_eq_None_iff)

lemma rowGet_mergeRow:
  "rowGet (mergeRow e n) col =
     (case rowGet n col of Some c \<Rightarrow> if cellValue c \<noteq> Null then Some c else rowGet e col
      | None \<Rightarrow> rowGet e col)"
  using rowGet_None_iff[of n col]
  by (auto simp: mergeRow_def rowGet_foldl_mergeCell split: option.splits)

lemma keyValue_mergeRow:
  "keyValue pk (mergeRow e n) = (if keyValue pk n \<noteq> Null then keyValue pk n else keyValue pk e)"
  by (auto simp: keyValue_def rowGet_mergeRow split: option.splits)

lemma replaceCell_same: "map_of r k = Some c \<Longrightarrow> replaceCell k c r = r"
  by (induction r) (auto split: if_splits)

lemma mergeCell_same: "mergeCell r r k = r"
  by (auto simp: mergeCell_def rowSet_def rowGet_def replaceCell_same split: option.splits)

lemma mergeRow_same: "mergeRow r r = r"
proof -
  have "foldl (mergeCell r) r ks = r" for ks
    by (induction ks) (simp_all add: mergeCell_same)
  then show ?thesis by (simp add: mergeRow_def)
qed



lemma keyed_mapSet:
  "keyed pk m \<Longrightarrow> keyValue pk r = k \<Longrightarrow> k \<noteq> Null \<Longrightarrow> keyed pk (mapSet m k r)"
  unfolding keyed_def list_all_iff using set_mapSet_subset by fastforce

lemma keyed_lookup: "keyed pk m \<Longrightarrow> map_of m k = Some r \<Longrightarrow> keyValue pk r = k"
  unfolding keyed_def list_all_iff by (auto dest: map_of_SomeD)

lemma keyed_indexRow: "keyed pk m \<Longrightarrow> keyed pk (indexRow pk m r)"
  by (simp add: indexRow_def Let_def keyed_mapSet)

lemma keyed_mergeNewRow: "keyed pk m \<Longrightarrow> keyed pk (mergeNewRow pk m n)"
  by (auto simp: mergeNewRow_def Let_def mapHas_def mapGet_def keyed_mapSet keyValue_mergeRow
      split: option.splits)

lemma keyed_foldl_indexRow: "keyed pk m \<Longrightarrow> keyed pk (foldl (indexRow pk) m ex)"
  by (induction ex arbitrary: m) (simp_all add: keyed_indexRow)

lemma keyed_foldl_mergeNewRow: "keyed pk m \<Longrightarrow> keyed pk (foldl (mergeNewRow pk) m new)"
  by (induction new arbitrary: m) (simp_all add: keyed_mergeNewRow)

lemma keyed_Nil: "keyed pk []"
  by (simp add: keyed_def)

lemma keyed_mergedDataMap: "keyed pk (mergedDataMap pk ex new)"
  unfolding mergedDataMap_def
  by (intro keyed_foldl_mergeNewRow keyed_foldl_indexRow keyed_Nil)

lemma distinct_indexRow: "distinct (map fst m) \<Longrightarrow> distinct (map fst (indexRow pk m r))"
  by (simp add: indexRow_def Let_def distinct_mapSet)

lemma distinct_mergeNewRow: "distinct (map fst m) \<Longrightarrow> distinct (map fst (mergeNewRow pk m n))"
  by (auto simp: mergeNewRow_def Let_def distinct_mapSet split: option.splits)

lemma distinct_foldl_indexRow:
  "distinct (map fst m) \<Longrightarrow> distinct (map fst (foldl (indexRow pk) m ex))"
  by (induction ex arbitrary: m) (simp_all add: distinct_indexRow)

lemma distinct_foldl_mergeNewRow:
  "distinct (map fst m) \<Longrightarrow> distinct (map fst (foldl (mergeNewRow pk) m new))"
  by (induction new arbitrary: m) (simp_all add: distinct_mergeNewRow)

lemma distinct_mergedDataMap: "distinct (map fst (mergedDataMap pk ex new))"
  by (simp add: mergedDataMap_def distinct_foldl_mergeNewRow distinct_foldl_indexRow)

lemma set_keys_mapSet: "fst ` set (mapSet m k v) = insert k (fst ` set m)"
proof -
  have "set (map fst (mapSet m k v)) = insert k (set (map fst m))"
    unfolding keys_mapSet by auto
  then show ?thesis by simp
qed

lemma keys_indexRow:
  "fst ` set (indexRow pk m r) = fst ` set m \<union> ({keyValue pk r} - {Null})"
  by (auto simp: indexRow_def Let_def set_keys_mapSet)

lemma keys_mergeNewRow:
  "fst ` set (mergeNewRow pk m n) = fst ` set m \<union> ({keyValue pk n} - {Null})"
  by (auto simp: mergeNewRow_def Let_def set_keys_mapSet mapHas_def mapGet_def map_of_eq_None_iff
      split: option.splits)

lemma keys_foldl_indexRow:
  "fst ` set (foldl (indexRow pk) m ex) = fst ` set m \<union> (keyValue pk ` set ex - {Null})"
proof (induction ex arbitrary: m)
  case Nil
  show ?case by simp
next
  case (Cons r ex)
  show ?case unfolding foldl_Cons Cons.IH keys_indexRow by auto
qed

lemma keys_foldl_mergeNewRow:
  "fst ` set (foldl (mergeNewRow pk) m new) = fst ` set m \<union> (keyValue pk ` set new - {Null})"
proof (induction new arbitrary: m)
  case Nil
  show ?case by simp
next
  case (Cons r new)
  show ?case unfolding foldl_Cons Cons.IH keys_mergeNewRow by auto
qed

lemma keys_mergedDataMap:
  "fst ` set (mergedDataMap pk ex new) = keyValue pk ` (set ex \<union> set new) - {Null}"
  unfolding mergedDataMap_def keys_foldl_mergeNewRow keys_foldl_indexRow by auto

lemma map_of_indexRow:
  "k \<noteq> Null \<Longrightarrow> map_of (indexRow pk m r) k = (if keyValue pk r = k then Some r else map_of m k)"
  by (auto simp: indexRow_def Let_def map_of_mapSet)

lemma map_of_foldl_indexRow:
  "k \<noteq> Null \<Longrightarrow> map_of (foldl (indexRow pk) m ex) k =
     (case filter (\<lambda>r. keyValue pk r = k) ex of [] \<Rightarrow> map_of m k | e # es \<Rightarrow> Some (last (e # es)))"
  by (induction ex arbitrary: m) (auto simp: map_of_indexRow split: list.splits)

lemma map_of_mergeNewRow:
  "k \<noteq> Null \<Longrightarrow> map_of (mergeNewRow pk m n) k =
     (if keyValue pk n = k
      then (case map_of m k of Some e \<Rightarrow> Some (mergeRow e n) | None \<Rightarrow> Some n)
      else map_of m k)"
  by (auto simp: mergeNewRow_def Let_def map_of_mapSet mapHas_def mapGet_def split: option.splits)

lemma map_of_foldl_mergeNewRow:
  "k \<noteq> Null \<Longrightarrow> map_of (foldl (mergeNewRow pk) m new) k =
     (case map_of m k of
        Some e \<Rightarrow> Some (foldl mergeRow e (filter (\<lambda>n. keyValue pk n = k) new))
      | None \<Rightarrow> (case filter (\<lambda>n. keyValue pk n = k) new of [] \<Rightarrow> None
                  | n1 # ns \<Rightarrow> Some (foldl mergeRow n1 ns)))"
  by (induction new arbitrary: m) (auto simp: map_of_mergeNewRow split: option.splits list.splits)

lemma mset_insertBy: "mset (insertBy cmp x ys) = add_mset x (mset ys)"
  by (induction ys) auto

lemma mset_sortBy: "mset (sortBy cmp xs) = mset xs"
  unfolding sortBy_def by (induction xs) (auto simp: mset_insertBy)

lemma set_sortBy: "set (sortBy cmp xs) = set xs"
  by (metis mset_sortBy set_mset_mset)

lemma hasKey_mergedDataMap: "list_all (hasKey pk) (mapValues (mergedDataMap pk ex new))"
proof -
  have "keyed pk (mergedDataMap pk ex new)" by (rule keyed_mergedDataMap)
  then show ?thesis
    by (auto simp: keyed_def list_all_iff mapValues_def hasKey_def keyValue_def split: option.splits)
qed

lemma sortRows_merged:
  "sortRows pk (mapValues (mergedDataMap pk ex new)) =
     Inr (sortBy (compareRows pk) (mapValues (mergedDataMap pk ex new)))"
  by (simp add: sortRows_def hasKey_mergedDataMap)



section \<open>Sorting\<close>

lemma compareRows_pos_imp:
  "jless (Fin 0) (compareRows pk a b) \<Longrightarrow> jless (keyNumber pk b) (keyNumber pk a)"
  by (auto simp: compareRows_def Let_def dest: jsub_pos_imp split: if_splits)

lemma compareRows_sign:
  assumes "\<not> isNaN (keyNumber pk a)" "\<not> isNaN (keyNumber pk b)"
    and "isDouble (keyNumber pk a)" "isDouble (keyNumber pk b)"
  shows "jless (Fin 0) (compareRows pk a b) \<longleftrightarrow> jless (keyNumber pk b) (keyNumber pk a)"
  using assms by (simp add: compareRows_def Let_def isNaN_def jsub_sign)

lemma insertBy_head:
  "(\<And>y. y \<in> set ys \<Longrightarrow> \<not> jless (Fin 0) (cmp x y)) \<Longrightarrow> insertBy cmp x ys = x # ys"
  by (cases ys) simp_all

lemma sortBy_sorted:
  "sorted_wrt (\<lambda>a b. \<not> jless (Fin 0) (cmp a b)) xs \<Longrightarrow> sortBy cmp xs = xs"
proof (induction xs)
  case Nil
  show ?case by (simp add: sortBy_def)
next
  case (Cons x xs)
  then have "sortBy cmp xs = xs" by simp
  then have "sortBy cmp (x # xs) = insertBy cmp x xs" by (simp add: sortBy_def)
  also have "\<dots> = x # xs" using Cons.prems by (intro insertBy_head) simp
  finally show ?case .
qed

lemma set_insertBy: "set (insertBy cmp x ys) = insert x (set ys)"
  by (induction ys) auto

lemma sorted_insertBy:
  assumes "numKey pk x" "list_all (numKey pk) ys" "sorted_wrt (keyLe pk) ys"
  shows "sorted_wrt (keyLe pk) (insertBy (compareRows pk) x ys)"
  using assms
proof (induction ys)
  case Nil
  show ?case by simp
next
  case (Cons y ys)
  have sgn: "jless (Fin 0) (compareRows pk x y) \<longleftrightarrow> jless (keyNumber pk y) (keyNumber pk x)"
    using Cons.prems by (intro compareRows_sign) (simp_all add: numKey_def)
  show ?case
  proof (cases "jless (Fin 0) (compareRows pk x y)")
    case True
    then have "keyLe pk y x" using sgn by (simp add: keyLe_def jless_imp_not)
    moreover have "sorted_wrt (keyLe pk) (insertBy (compareRows pk) x ys)"
      using Cons by simp
    ultimately show ?thesis using True Cons.prems by (auto simp: set_insertBy)
  next
    case False
    then have xy: "keyLe pk x y" using sgn by (simp add: keyLe_def)
    have "keyLe pk x z" if "z \<in> set ys" for z
    proof -
      from that Cons.prems have "keyLe pk y z" by simp
      moreover have "keyNumber pk y \<noteq> NaN" using Cons.prems by (simp add: numKey_def isNaN_def)
      ultimately show ?thesis using xy unfolding keyLe_def by (metis not_jless_trans)
    qed
    then show ?thesis using False xy Cons.prems by simp
  qed
qed

lemma sorted_sortBy:
  "list_all (numKey pk) xs \<Longrightarrow> sorted_wrt (keyLe pk) (sortBy (compareRows pk) xs)"
proof (induction xs)
  case Nil
  show ?case by (simp add: sortBy_def)
next
  case (Cons x xs)
  have "list_all (numKey pk) (sortBy (compareRows pk) xs)"
    using Cons.prems by (simp add: list_all_iff set_sortBy)
  with Cons have "sorted_wrt (keyLe pk) (insertBy (compareRows pk) x (sortBy (compareRows pk) xs))"
    by (intro sorted_insertBy) simp_all
  then show ?case by (simp add: sortBy_def)
qed

section \<open>Properties of \<open>mergeBarrelData\<close>\<close>

lemma isDouble_Number: "wfValue v \<Longrightarrow> isDouble (Number v)"
  by (cases v) (simp_all add: wfValue_def Number_def isDouble_StringToNumber)

lemma keyNumber_keyValue: "hasKey pk r \<Longrightarrow> keyNumber pk r = Number (keyValue pk r)"
  by (auto simp: hasKey_def keyNumber_def keyValue_def split: option.splits)

lemma merge_main:
  assumes "existing \<noteq> []" "new \<noteq> []" "primaryKeyOf existing = Some pk" "pk \<noteq> []"
  shows "mergeBarrelData existing new =
           Inr (sortBy (compareRows pk) (mapValues (mergedDataMap pk existing new)))"
  using assms by (simp add: mergeBarrelData_def sortRows_merged)

text \<open>The final sort never meets a row without the primary cell: the function does not throw.\<close>

lemma mergeBarrelData_total: "\<exists>out. mergeBarrelData existing new = Inr out"
  by (auto simp: mergeBarrelData_def sortRows_merged split: option.splits)

lemma keyValue_mapValues:
  assumes "keyed pk m"
  shows "map (keyValue pk) (mapValues m) = map fst m"
  using assms by (induction m) (auto simp: keyed_def mapValues_def)

lemma merged_keys:
  "map (keyValue pk) (mapValues (mergedDataMap pk ex new)) = map fst (mergedDataMap pk ex new)"
  by (rule keyValue_mapValues[OF keyed_mergedDataMap])

lemma sorted_merged_keys:
  fixes pk ex new
  defines "out \<equiv> sortBy (compareRows pk) (mapValues (mergedDataMap pk ex new))"
  shows "distinct (map (keyValue pk) out)"
    and "set (map (keyValue pk) out) = keyValue pk ` (set ex \<union> set new) - {Null}"
proof -
  have m: "mset (map (keyValue pk) out) = mset (map fst (mergedDataMap pk ex new))"
    unfolding out_def by (simp add: mset_sortBy flip: merged_keys)
  show "distinct (map (keyValue pk) out)"
    using distinct_mergedDataMap[of pk ex new] m by (metis mset_eq_imp_distinct_iff)
  have "set (map (keyValue pk) out) = set (map fst (mergedDataMap pk ex new))"
    using m by (rule mset_eq_setD)
  then show "set (map (keyValue pk) out) = keyValue pk ` (set ex \<union> set new) - {Null}"
    by (simp add: keys_mergedDataMap)
qed

lemma numKey_merged:
  assumes "list_all (numericKey pk) (existing @ new)"
  shows "list_all (numKey pk) (mapValues (mergedDataMap pk existing new))"
proof -
  have "numKey pk r" if "r \<in> set (mapValues (mergedDataMap pk existing new))" for r
  proof -
    from that have hk: "hasKey pk r"
      using hasKey_mergedDataMap[of pk existing new] by (simp add: list_all_iff)
    from that have "keyValue pk r \<in> set (map (keyValue pk) (mapValues (mergedDataMap pk existing new)))"
      by simp
    then have "keyValue pk r \<in> keyValue pk ` (set existing \<union> set new)"
      unfolding merged_keys using keys_mergedDataMap[of pk existing new] by auto
    then obtain r' where "r' \<in> set existing \<union> set new" "keyValue pk r = keyValue pk r'" by auto
    with assms have "numericKey pk r" by (auto simp: list_all_iff numericKey_def)
    then show ?thesis
      by (simp add: numKey_def numericKey_def keyNumber_keyValue[OF hk] isDouble_Number)
  qed
  then show ?thesis by (simp add: list_all_iff)
qed

lemma rowGet_foldl_mergeRow_blank:
  "list_all (\<lambda>n. blankAt n col) ns \<Longrightarrow> rowGet (foldl mergeRow e ns) col = rowGet e col"
  by (induction ns arbitrary: e) (auto simp: rowGet_mergeRow blankAt_def split: option.splits)

lemma mapSet_fresh: "k \<notin> fst ` set m \<Longrightarrow> mapSet m k v = m @ [(k, v)]"
  by (induction m) auto

lemma foldl_indexRow_distinct:
  assumes "distinct (map (keyValue pk) D)" "Null \<notin> keyValue pk ` set D"
    and "keyValue pk ` set D \<inter> fst ` set m = {}"
  shows "foldl (indexRow pk) m D = m @ map (\<lambda>r. (keyValue pk r, r)) D"
  using assms
proof (induction D arbitrary: m)
  case Nil
  show ?case by simp
next
  case (Cons r D)
  have step: "indexRow pk m r = m @ [(keyValue pk r, r)]"
    using Cons.prems by (auto simp: indexRow_def Let_def mapSet_fresh)
  have "foldl (indexRow pk) (m @ [(keyValue pk r, r)]) D =
          (m @ [(keyValue pk r, r)]) @ map (\<lambda>r. (keyValue pk r, r)) D"
    using Cons.prems by (intro Cons.IH) auto
  then show ?case by (simp add: step)
qed

lemma foldl_fixed: "(\<And>x. x \<in> set xs \<Longrightarrow> f a x = a) \<Longrightarrow> foldl f a xs = a"
  by (induction xs) simp_all

lemma map_of_keyed_list:
  "distinct (map (keyValue pk) D) \<Longrightarrow> r \<in> set D \<Longrightarrow>
     map_of (map (\<lambda>r. (keyValue pk r, r)) D) (keyValue pk r) = Some r"
  by (induction D) (auto simp: rev_image_eqI)

text \<open>Unfolding the functions on concrete data.\<close>

lemmas parse_eval = StringToNumber_def trim_def trimStart_def isWhiteSpace_def startsWith_def
  parseStrDecimalLiteral_def parseUnsignedDecimal_def isDigit_def parseExponent_def
  digitsValue_def digitValue_def parseRadix_def parseFloat_def

lemmas merge_eval = mergeBarrelData_def primaryKeyOf_def keys_def sortRows_def mapValues_def
  mergedDataMap_def indexRow_def mergeNewRow_def keyValue_def rowGet_def mapHas_def mapGet_def
  hasKey_def sortBy_def compareRows_def keyNumber_def Number_def isNaN_def jsub_def
  mergeRow_def mergeCell_def rowSet_def Let_def high_def

text \<open>
  Claim C7. Merging an empty batch into a dataset returns the dataset, and merging a batch
  into the empty dataset returns the batch: \<open>merge(D, []) = D\<close> and \<open>merge([], D) = D\<close>, for
  every dataset \<open>D\<close>, with no sorting and no row dropped.
\<close>

theorem merge_identity:
  "mergeBarrelData D [] = Inr D \<and> mergeBarrelData [] D = Inr D"
  by (simp add: mergeBarrelData_def)

text \<open>
  Claim C2, as amended. When both datasets are non-empty, the first existing row has a
  first column with a non-empty name, and every row of the two datasets has that column,
  the result has exactly one row for every primary value other than \<open>null\<close> that occurs in
  either input, and no other row. Primary values are the raw cell values, as the \<open>Map\<close>
  compares them: the number \<open>25\<close> and the string \<open>"25"\<close> are two keys, and give two rows with
  the same number. When the incoming dataset is empty the existing one is returned as it
  is, and when the existing one is empty the incoming one is, rows that share a primary
  value included.
\<close>

theorem merge_keys_unique:
  assumes "existing \<noteq> []" "new \<noteq> []" "primaryKeyOf existing = Some pk" "pk \<noteq> []"
    and "list_all (hasKey pk) (existing @ new)"
  shows "\<exists>out. mergeBarrelData existing new = Inr out \<and>
           distinct (map (keyValue pk) out) \<and>
           set (map (keyValue pk) out) = keyValue pk ` (set existing \<union> set new) - {Null}"
  using merge_main[OF assms(1-4)] sorted_merged_keys[of pk existing new] by simp

theorem merge_keys_unique_witness:
  "(let existing = [[(''h'', high (Num (Fin 20))), (''v'', high (Num (Fin 200)))],
                    [(''h'', high (Num (Fin 30))), (''v'', high Null)]];
        new = [[(''h'', high (Num (Fin 25))), (''v'', high (Num (Fin 250)))],
               [(''h'', high (Num (Fin 20))), (''v'', high Null)],
               [(''h'', high Null), (''v'', high (Num (Fin 7)))]]
    in existing \<noteq> [] \<and> new \<noteq> [] \<and> primaryKeyOf existing = Some ''h'' \<and> ''h'' \<noteq> [] \<and>
       list_all (hasKey ''h'') (existing @ new) \<and>
       (\<exists>out. mergeBarrelData existing new = Inr out \<and>
          distinct (map (keyValue ''h'') out) \<and>
          set (map (keyValue ''h'') out) = keyValue ''h'' ` (set existing \<union> set new) - {Null}) \<and>
       keyValue ''h'' ` (set existing \<union> set new) - {Null} =
         {Num (Fin 20), Num (Fin 25), Num (Fin 30)} \<and>
       mergeBarrelData existing new =
         Inr [[(''h'', high (Num (Fin 20))), (''v'', high (Num (Fin 200)))],
              [(''h'', high (Num (Fin 25))), (''v'', high (Num (Fin 250)))],
              [(''h'', high (Num (Fin 30))), (''v'', high Null)]])"
proof -
  define existing where "existing = [[(''h'', high (Num (Fin 20))), (''v'', high (Num (Fin 200)))],
                    [(''h'', high (Num (Fin 30))), (''v'', high Null)]]"
  define new where "new = [[(''h'', high (Num (Fin 25))), (''v'', high (Num (Fin 250)))],
               [(''h'', high (Num (Fin 20))), (''v'', high Null)],
               [(''h'', high Null), (''v'', high (Num (Fin 7)))]]"
  have h: "existing \<noteq> []" "new \<noteq> []" "primaryKeyOf existing = Some ''h''" "''h'' \<noteq> []"
    "list_all (hasKey ''h'') (existing @ new)"
    by (simp_all add: existing_def new_def primaryKeyOf_def keys_def hasKey_def rowGet_def)
  have s: "keyValue ''h'' ` (set existing \<union> set new) - {Null} =
         {Num (Fin 20), Num (Fin 25), Num (Fin 30)}"
    by (auto simp: existing_def new_def keyValue_def rowGet_def high_def)
  have e: "mergeBarrelData existing new =
         Inr [[(''h'', high (Num (Fin 20))), (''v'', high (Num (Fin 200)))],
              [(''h'', high (Num (Fin 25))), (''v'', high (Num (Fin 250)))],
              [(''h'', high (Num (Fin 30))), (''v'', high Null)]]"
    by (simp add: existing_def new_def merge_eval)
  show ?thesis
    using merge_keys_unique[OF h] h s e unfolding Let_def existing_def new_def by blast
qed

theorem merge_keys_unique_counterexample:
  "mergeBarrelData
      [[(''h'', high (Num (Fin 25))), (''v'', high (Num (Fin 220)))]]
      [[(''h'', high (Str ''25'')), (''v'', high (Num (Fin 221)))]]
    = Inr [[(''h'', high (Num (Fin 25))), (''v'', high (Num (Fin 220)))],
           [(''h'', high (Str ''25'')), (''v'', high (Num (Fin 221)))]] \<and>
   keyNumber ''h'' [(''h'', high (Num (Fin 25))), (''v'', high (Num (Fin 220)))] = Fin 25 \<and>
   keyNumber ''h'' [(''h'', high (Str ''25'')), (''v'', high (Num (Fin 221)))] = Fin 25 \<and>
   mergeBarrelData
      [[(''h'', high (Num (Fin 25))), (''v'', high (Num (Fin 220)))],
       [(''h'', high (Num (Fin 25))), (''v'', high (Num (Fin 221)))]]
      []
    = Inr [[(''h'', high (Num (Fin 25))), (''v'', high (Num (Fin 220)))],
           [(''h'', high (Num (Fin 25))), (''v'', high (Num (Fin 221)))]]"
  by (simp add: merge_eval parse_eval)

text \<open>
  Claim C3, as amended. When both datasets are non-empty, the first existing row has a
  first column with a non-empty name, every row of the two datasets has that column, and
  the primary value of every row coerces to a number (a number in a cell being a binary64
  value), the result is non-decreasing by that number. When the incoming dataset is empty
  the existing one is returned in the order it has, and when the existing one is empty the
  incoming one is: these two returns do not sort.
\<close>

theorem merge_sorted:
  assumes "existing \<noteq> []" "new \<noteq> []" "primaryKeyOf existing = Some pk" "pk \<noteq> []"
    and "list_all (hasKey pk) (existing @ new)"
    and "list_all (numericKey pk) (existing @ new)"
  shows "\<exists>out. mergeBarrelData existing new = Inr out \<and> keyOrdered pk out"
proof -
  let ?out = "sortBy (compareRows pk) (mapValues (mergedDataMap pk existing new))"
  have "keyOrdered pk ?out"
    using sorted_sortBy[OF numKey_merged[OF assms(6)]] by (simp add: keyOrdered_def)
  then show ?thesis using merge_main[OF assms(1-4)] by blast
qed

theorem merge_sorted_witness:
  "(let existing = [[(''h'', high (Num (Fin 30))), (''v'', high (Num (Fin 300)))],
                    [(''h'', high (Num (Fin 20))), (''v'', high (Num (Fin 200)))]];
        new = [[(''h'', high (Str ''25'')), (''v'', high (Num (Fin 250)))],
               [(''h'', high (Num (Fin 20))), (''v'', high Null)]]
    in existing \<noteq> [] \<and> new \<noteq> [] \<and> primaryKeyOf existing = Some ''h'' \<and> ''h'' \<noteq> [] \<and>
       list_all (hasKey ''h'') (existing @ new) \<and>
       list_all (numericKey ''h'') (existing @ new) \<and>
       (\<exists>out. mergeBarrelData existing new = Inr out \<and> keyOrdered ''h'' out) \<and>
       mergeBarrelData existing new =
         Inr [[(''h'', high (Num (Fin 20))), (''v'', high (Num (Fin 200)))],
              [(''h'', high (Str ''25'')), (''v'', high (Num (Fin 250)))],
              [(''h'', high (Num (Fin 30))), (''v'', high (Num (Fin 300)))]])"
proof -
  define existing where "existing = [[(''h'', high (Num (Fin 30))), (''v'', high (Num (Fin 300)))],
                    [(''h'', high (Num (Fin 20))), (''v'', high (Num (Fin 200)))]]"
  define new where "new = [[(''h'', high (Str ''25'')), (''v'', high (Num (Fin 250)))],
               [(''h'', high (Num (Fin 20))), (''v'', high Null)]]"
  have h: "existing \<noteq> []" "new \<noteq> []" "primaryKeyOf existing = Some ''h''" "''h'' \<noteq> []"
    "list_all (hasKey ''h'') (existing @ new)"
    by (simp_all add: existing_def new_def primaryKeyOf_def keys_def hasKey_def rowGet_def)
  have n: "list_all (numericKey ''h'') (existing @ new)"
    by (simp add: existing_def new_def numericKey_def wfValue_def keyValue_def rowGet_def
        high_def Number_def isNaN_def parse_eval)
  have e: "mergeBarrelData existing new =
         Inr [[(''h'', high (Num (Fin 20))), (''v'', high (Num (Fin 200)))],
              [(''h'', high (Str ''25'')), (''v'', high (Num (Fin 250)))],
              [(''h'', high (Num (Fin 30))), (''v'', high (Num (Fin 300)))]]"
    by (simp add: existing_def new_def merge_eval parse_eval)
  show ?thesis
    using merge_sorted[OF h n] h n e unfolding Let_def existing_def new_def by blast
qed

theorem merge_sorted_counterexample:
  "mergeBarrelData
      [[(''h'', high (Num (Fin 30))), (''v'', high (Num (Fin 300)))],
       [(''h'', high (Num (Fin 20))), (''v'', high (Num (Fin 200)))]]
      []
    = Inr [[(''h'', high (Num (Fin 30))), (''v'', high (Num (Fin 300)))],
           [(''h'', high (Num (Fin 20))), (''v'', high (Num (Fin 200)))]] \<and>
   keyNumber ''h'' [(''h'', high (Num (Fin 30))), (''v'', high (Num (Fin 300)))] = Fin 30 \<and>
   keyNumber ''h'' [(''h'', high (Num (Fin 20))), (''v'', high (Num (Fin 200)))] = Fin 20 \<and>
   \<not> keyOrdered ''h''
      [[(''h'', high (Num (Fin 30))), (''v'', high (Num (Fin 300)))],
       [(''h'', high (Num (Fin 20))), (''v'', high (Num (Fin 200)))]]"
  by (simp add: merge_eval keyOrdered_def keyLe_def)

text \<open>
  Claim C5, as amended. When both datasets are non-empty and the first existing row has a
  first column with a non-empty name, take a primary value present in the existing data,
  and a column in which every incoming row with that primary value has no cell or a cell
  whose value is \<open>null\<close>: the result has exactly one row with that primary value, and its
  cell in that column is the cell of the existing row (of the last existing row with that
  value, should there be several). When one incoming row with that primary value has a
  value in the column, that value is written, also when another incoming row with the same
  primary value has \<open>null\<close> there; and when the first column has the empty name, the incoming
  dataset is returned as it is.
\<close>

theorem merge_conservative:
  assumes "existing \<noteq> []" "new \<noteq> []" "primaryKeyOf existing = Some pk" "pk \<noteq> []"
    and "e \<in> set existing" "keyValue pk e = k" "k \<noteq> Null"
    and "last (filter (\<lambda>r. keyValue pk r = k) existing) = e"
    and "list_all (\<lambda>n. keyValue pk n = k \<longrightarrow> blankAt n col) new"
  shows "\<exists>out r. mergeBarrelData existing new = Inr out \<and> r \<in> set out \<and> keyValue pk r = k \<and>
           (\<forall>r' \<in> set out. keyValue pk r' = k \<longrightarrow> r' = r) \<and>
           rowGet r col = rowGet e col"
proof -
  let ?M = "mergedDataMap pk existing new"
  let ?out = "sortBy (compareRows pk) (mapValues ?M)"
  let ?ns = "filter (\<lambda>n. keyValue pk n = k) new"
  define r where "r = foldl mergeRow e ?ns"
  have ne: "filter (\<lambda>r. keyValue pk r = k) existing \<noteq> []"
    using assms(5,6) by (auto simp: filter_empty_conv)
  obtain x xs where f: "filter (\<lambda>r. keyValue pk r = k) existing = x # xs"
    using ne by (cases "filter (\<lambda>r. keyValue pk r = k) existing") auto
  have "last (x # xs) = e" using assms(8) by (simp only: f)
  then have m0: "map_of (foldl (indexRow pk) [] existing) k = Some e"
    by (simp only: map_of_foldl_indexRow[OF assms(7)] f list.case)
  have m1: "map_of ?M k = Some r"
    unfolding mergedDataMap_def r_def by (simp add: map_of_foldl_mergeNewRow[OF assms(7)] m0)
  then have "(k, r) \<in> set ?M" by (rule map_of_SomeD)
  then have "r \<in> set (mapValues ?M)" by (force simp: mapValues_def)
  then have mem: "r \<in> set ?out" by (simp add: set_sortBy)
  have key: "keyValue pk r = k" using keyed_lookup[OF keyed_mergedDataMap m1] .
  have "distinct (map (keyValue pk) ?out)" by (rule sorted_merged_keys)
  then have inj: "inj_on (keyValue pk) (set ?out)" by (simp add: distinct_map)
  have uniq: "\<forall>r' \<in> set ?out. keyValue pk r' = k \<longrightarrow> r' = r"
    using inj mem key by (auto dest: inj_onD)
  have "list_all (\<lambda>n. blankAt n col) ?ns"
    using assms(9) by (auto simp: list_all_iff)
  then have cell: "rowGet r col = rowGet e col"
    unfolding r_def by (rule rowGet_foldl_mergeRow_blank)
  show ?thesis using merge_main[OF assms(1-4)] mem key uniq cell by blast
qed

theorem merge_conservative_witness:
  "(let e = [(''h'', high (Num (Fin 20))), (''v'', high (Num (Fin 200)))];
        existing = [e, [(''h'', high (Num (Fin 30))), (''v'', high (Num (Fin 300)))]];
        new = [[(''h'', \<lparr>cellValue = Num (Fin 20), confidence = User\<rparr>), (''v'', high Null),
                (''w'', high (Num (Fin 7)))]];
        k = Num (Fin 20)
    in existing \<noteq> [] \<and> new \<noteq> [] \<and> primaryKeyOf existing = Some ''h'' \<and> ''h'' \<noteq> [] \<and>
       e \<in> set existing \<and> keyValue ''h'' e = k \<and> k \<noteq> Null \<and>
       last (filter (\<lambda>r. keyValue ''h'' r = k) existing) = e \<and>
       list_all (\<lambda>n. keyValue ''h'' n = k \<and> blankAt n ''v'') new \<and>
       (\<exists>out r. mergeBarrelData existing new = Inr out \<and> r \<in> set out \<and> keyValue ''h'' r = k \<and>
           rowGet r ''v'' = Some (high (Num (Fin 200)))) \<and>
       mergeBarrelData existing new =
         Inr [[(''h'', \<lparr>cellValue = Num (Fin 20), confidence = User\<rparr>),
               (''v'', high (Num (Fin 200))), (''w'', high (Num (Fin 7)))],
              [(''h'', high (Num (Fin 30))), (''v'', high (Num (Fin 300)))]])"
proof -
  define e where "e = [(''h'', high (Num (Fin 20))), (''v'', high (Num (Fin 200)))]"
  define existing where
    "existing = [e, [(''h'', high (Num (Fin 30))), (''v'', high (Num (Fin 300)))]]"
  define new where
    "new = [[(''h'', \<lparr>cellValue = Num (Fin 20), confidence = User\<rparr>), (''v'', high Null),
             (''w'', high (Num (Fin 7)))]]"
  define k where "k = Num (Fin 20)"
  have h: "existing \<noteq> []" "new \<noteq> []" "primaryKeyOf existing = Some ''h''" "''h'' \<noteq> []"
    "e \<in> set existing" "keyValue ''h'' e = k" "k \<noteq> Null"
    "last (filter (\<lambda>r. keyValue ''h'' r = k) existing) = e"
    by (simp_all add: existing_def new_def e_def k_def primaryKeyOf_def keys_def keyValue_def
        rowGet_def high_def)
  have b: "list_all (\<lambda>n. keyValue ''h'' n = k \<and> blankAt n ''v'') new"
    by (simp add: new_def k_def keyValue_def rowGet_def blankAt_def high_def)
  then have b': "list_all (\<lambda>n. keyValue ''h'' n = k \<longrightarrow> blankAt n ''v'') new"
    by (simp add: list_all_iff)
  have v: "rowGet e ''v'' = Some (high (Num (Fin 200)))"
    by (simp add: e_def rowGet_def)
  have m: "mergeBarrelData existing new =
         Inr [[(''h'', \<lparr>cellValue = Num (Fin 20), confidence = User\<rparr>),
               (''v'', high (Num (Fin 200))), (''w'', high (Num (Fin 7)))],
              [(''h'', high (Num (Fin 30))), (''v'', high (Num (Fin 300)))]]"
    by (simp add: existing_def new_def e_def merge_eval isArrayIndex_def isDigit_def)
  from merge_conservative[OF h b']
  have "\<exists>out r. mergeBarrelData existing new = Inr out \<and> r \<in> set out \<and> keyValue ''h'' r = k \<and>
           rowGet r ''v'' = Some (high (Num (Fin 200)))"
    unfolding v by blast
  then show ?thesis
    using h b m unfolding Let_def existing_def new_def e_def k_def by blast
qed

theorem merge_conservative_counterexample:
  "mergeBarrelData
      [[(''h'', high (Num (Fin 20))), (''v'', high (Num (Fin 200)))]]
      [[(''h'', high (Num (Fin 20))), (''v'', high Null)],
       [(''h'', high (Num (Fin 20))), (''v'', high (Num (Fin 5)))]]
    = Inr [[(''h'', high (Num (Fin 20))), (''v'', high (Num (Fin 5)))]] \<and>
   mergeBarrelData
      [[([], high (Num (Fin 20))), (''v'', high (Num (Fin 200)))]]
      [[([], high (Num (Fin 20))), (''v'', high Null)]]
    = Inr [[([], high (Num (Fin 20))), (''v'', high Null)]]"
  by (simp add: merge_eval)

text \<open>
  Claim C6, as amended. Merging a dataset into itself returns it when its rows have
  pairwise different primary values, none of them \<open>null\<close>, all of them coercible to a
  number, and stand in non-decreasing order of that number. (A dataset that is not in
  order comes back sorted, and rows that share a primary value come back as one row.)
\<close>

theorem merge_idempotent:
  assumes "\<And>pk. primaryKeyOf D = Some pk \<Longrightarrow> pk \<noteq> [] \<Longrightarrow>
             distinct (map (keyValue pk) D) \<and>
             list_all (\<lambda>r. keyValue pk r \<noteq> Null \<and> \<not> isNaN (keyNumber pk r)) D \<and>
             keyOrdered pk D"
  shows "mergeBarrelData D D = Inr D"
proof (cases "D = [] \<or> primaryKeyOf D = None \<or> primaryKeyOf D = Some []")
  case True
  then show ?thesis by (auto simp: mergeBarrelData_def)
next
  case False
  then obtain pk where pk: "primaryKeyOf D = Some pk" "pk \<noteq> []" and D: "D \<noteq> []" by auto
  from assms[OF pk] have dist: "distinct (map (keyValue pk) D)"
    and nn: "list_all (\<lambda>r. keyValue pk r \<noteq> Null \<and> \<not> isNaN (keyNumber pk r)) D"
    and ord: "keyOrdered pk D" by auto
  let ?M0 = "map (\<lambda>r. (keyValue pk r, r)) D"
  have nonnull: "Null \<notin> keyValue pk ` set D" using nn by (auto simp: list_all_iff)
  have m0: "foldl (indexRow pk) [] D = ?M0"
    using foldl_indexRow_distinct[OF dist nonnull, of "[]"] by simp
  have same: "mergeNewRow pk ?M0 n = ?M0" if "n \<in> set D" for n
  proof -
    have k: "keyValue pk n \<noteq> Null" using that nn by (auto simp: list_all_iff)
    have l: "map_of ?M0 (keyValue pk n) = Some n" using dist that by (rule map_of_keyed_list)
    show ?thesis
      by (simp add: mergeNewRow_def Let_def k l mapHas_def mapGet_def mergeRow_same mapSet_same)
  qed
  have m1: "mergedDataMap pk D D = ?M0"
    unfolding mergedDataMap_def m0 by (rule foldl_fixed) (rule same)
  have vals: "mapValues (mergedDataMap pk D D) = D"
    by (simp add: m1 mapValues_def comp_def)
  have "sorted_wrt (\<lambda>a b. \<not> jless (Fin 0) (compareRows pk a b)) D"
    using ord unfolding keyOrdered_def
    by (rule sorted_wrt_mono_rel[rotated]) (auto simp: keyLe_def dest: compareRows_pos_imp)
  then have "sortBy (compareRows pk) D = D" by (rule sortBy_sorted)
  then show ?thesis using merge_main[OF D D pk] by (simp add: vals)
qed

theorem merge_idempotent_witness:
  "(let D = [[(''h'', high (Num (Fin 20))), (''v'', high (Num (Fin 200)))],
             [(''h'', high (Str ''25'')), (''v'', high Null)],
             [(''h'', high (Num (Fin 30))), (''v'', high (Num (Fin 300)))]]
    in primaryKeyOf D = Some ''h'' \<and> distinct (map (keyValue ''h'') D) \<and>
       list_all (\<lambda>r. keyValue ''h'' r \<noteq> Null \<and> \<not> isNaN (keyNumber ''h'' r)) D \<and>
       keyOrdered ''h'' D \<and> mergeBarrelData D D = Inr D)"
proof -
  define D where "D = [[(''h'', high (Num (Fin 20))), (''v'', high (Num (Fin 200)))],
             [(''h'', high (Str ''25'')), (''v'', high Null)],
             [(''h'', high (Num (Fin 30))), (''v'', high (Num (Fin 300)))]]"
  have p: "primaryKeyOf D = Some ''h''"
    by (simp add: D_def primaryKeyOf_def keys_def)
  have h: "distinct (map (keyValue ''h'') D) \<and>
       list_all (\<lambda>r. keyValue ''h'' r \<noteq> Null \<and> \<not> isNaN (keyNumber ''h'' r)) D \<and>
       keyOrdered ''h'' D"
    by (simp add: D_def keyValue_def keyNumber_def rowGet_def high_def Number_def isNaN_def
        keyOrdered_def keyLe_def parse_eval)
  have "mergeBarrelData D D = Inr D"
  proof (rule merge_idempotent)
    fix pk assume "primaryKeyOf D = Some pk"
    then have "pk = ''h''" using p by simp
    then show "distinct (map (keyValue pk) D) \<and>
       list_all (\<lambda>r. keyValue pk r \<noteq> Null \<and> \<not> isNaN (keyNumber pk r)) D \<and>
       keyOrdered pk D" using h by simp
  qed
  then show ?thesis using p h unfolding Let_def D_def by blast
qed

theorem merge_idempotent_counterexample:
  "mergeBarrelData
      [[(''h'', high (Num (Fin 30))), (''v'', high (Num (Fin 300)))],
       [(''h'', high (Num (Fin 20))), (''v'', high (Num (Fin 200)))]]
      [[(''h'', high (Num (Fin 30))), (''v'', high (Num (Fin 300)))],
       [(''h'', high (Num (Fin 20))), (''v'', high (Num (Fin 200)))]]
    = Inr [[(''h'', high (Num (Fin 20))), (''v'', high (Num (Fin 200)))],
           [(''h'', high (Num (Fin 30))), (''v'', high (Num (Fin 300)))]] \<and>
   mergeBarrelData
      [[(''h'', high (Num (Fin 25))), (''v'', high (Num (Fin 220)))],
       [(''h'', high (Num (Fin 25))), (''v'', high (Num (Fin 221)))]]
      [[(''h'', high (Num (Fin 25))), (''v'', high (Num (Fin 220)))],
       [(''h'', high (Num (Fin 25))), (''v'', high (Num (Fin 221)))]]
    = Inr [[(''h'', high (Num (Fin 25))), (''v'', high (Num (Fin 221)))]]"
  by (simp add: merge_eval)

section \<open>Evaluating numbers on concrete data\<close>

lemma rd_dyadic:
  assumes "\<bar>m\<bar> < 2 ^ 53" "- 1074 \<le> k" "k \<le> 970"
  shows "rd (rat_of_int m * 2 powi k) = Fin (rat_of_int m * 2 powi k)"
proof (cases "m = 0")
  case True
  then show ?thesis by simp
next
  case False
  define a where "a = rat_of_int \<bar>m\<bar> * 2 powi k"
  have pos: "0 < \<bar>m\<bar>" using False by simp
  have ex: "rd_pos a = a" unfolding a_def using pos assms by (intro rd_pos_exact) auto
  have abs: "\<bar>rat_of_int m * 2 powi k\<bar> = a" by (simp add: a_def abs_mult)
  have "rat_of_int \<bar>m\<bar> < rat_of_int (2 ^ 53)" using assms(1) by (simp only: of_int_less_iff)
  then have "rat_of_int \<bar>m\<bar> < 2 ^ 53" by simp
  then have "a < 2 ^ 53 * 2 powi k" unfolding a_def by (intro mult_strict_right_mono) auto
  also have "\<dots> \<le> 2 ^ 53 * 2 powi 970"
    using assms(3) by (intro mult_left_mono power_int_increasing) auto
  also have "\<dots> < 2 ^ 1024" by simp
  finally have small: "\<not> 2 ^ 1024 \<le> a" by simp
  have nz: "rat_of_int m * 2 powi k \<noteq> 0" using False by simp
  have p2: "(0::rat) < 2 powi k" by simp
  have "rat_of_int m * 2 powi k < 0 * 2 powi k \<longleftrightarrow> rat_of_int m < 0"
    using p2 by (rule mult_less_cancel_right_pos)
  then have sg: "rat_of_int m * 2 powi k < 0 \<longleftrightarrow> m < 0" by simp
  have "(if m < 0 then - a else a) = rat_of_int m * 2 powi k"
    by (simp add: a_def)
  then show ?thesis
    unfolding rd_def Let_def abs ex using nz small sg by simp
qed

lemma rd_normal:
  assumes "2 powi e \<le> x" "x < 2 powi (e + 1)" "- 1022 \<le> e" "e \<le> 1022"
  shows "rd x = Fin (rat_of_int (round_half_even (x / 2 powi (e - 52))) * 2 powi (e - 52))"
proof -
  have "(0::rat) < 2 powi e" by simp
  from this assms(1) have x: "0 < x" by (rule less_le_trans)
  have il: "ilog 2 x = e" using assms(1,2) by (intro ilog_unique) auto
  define y where "y = rat_of_int (round_half_even (x / 2 powi (e - 52))) * 2 powi (e - 52)"
  have r: "rd_pos x = y" using assms(3) by (simp add: rd_pos_def Let_def il y_def max_def)
  have "x / 2 powi (e - 52) < 2 powi (e + 1) / 2 powi (e - 52)"
    using assms(2) by (simp add: divide_strict_right_mono)
  also have "\<dots> = 2 ^ 53" by (simp add: pow2_split)
  finally have "x / 2 powi (e - 52) < rat_of_int (2 ^ 53)" by simp
  then have "\<lfloor>x / 2 powi (e - 52)\<rfloor> < 2 ^ 53" by (simp only: floor_less_iff)
  with round_half_even_le[of "x / 2 powi (e - 52)"]
  have "round_half_even (x / 2 powi (e - 52)) \<le> 2 ^ 53" by linarith
  then have "rat_of_int (round_half_even (x / 2 powi (e - 52))) \<le> rat_of_int (2 ^ 53)"
    by (simp only: of_int_le_iff)
  then have "y \<le> 2 ^ 53 * 2 powi (e - 52)"
    unfolding y_def by (intro mult_right_mono) auto
  also have "\<dots> = 2 powi (e + 1)" by (simp add: pow2_split)
  also have "\<dots> \<le> 2 powi 1023" using assms(4) by (intro power_int_increasing) auto
  also have "\<dots> < 2 ^ 1024" by simp
  finally have small: "\<not> 2 ^ 1024 \<le> y" by simp
  show ?thesis using x small by (simp add: rd_def Let_def r y_def)
qed

lemma floor_rat_numeral [simp]: "\<lfloor>numeral a / numeral b :: rat\<rfloor> = numeral a div numeral b"
  by (metis floor_divide_of_int_eq of_int_numeral)

lemma ceiling_rat_numeral [simp]:
  "\<lceil>numeral a / numeral b :: rat\<rceil> = - (- numeral a div numeral b)"
  by (metis ceiling_def floor_divide_of_int_eq minus_divide_left of_int_minus of_int_numeral)

lemma replicate_numeral: "replicate (numeral k) x = x # replicate (pred_numeral k) x"
  by (simp add: numeral_eq_Suc)

lemmas digits_eval = digitsOf.simps[of "numeral w" for w] digitsOf.simps[of 0] digitsOf.simps[of 1]
  char_of_def replicate_numeral

lemmas number_eval = decimalRepr_def ilog_def ndigits.simps[of _ "numeral w" for w]
  ndigits.simps[of _ 0] ndigits.simps[of _ 1] validDigits_def formatDecimal_def digits_eval Let_def

lemmas calc_eval = handleCalculate_def computeMemo_def findHeightKey_def mentionsMouill_def
  toLowerCase_def toLowerChar_def startsWith_def keys_def propKey_def readValue_def rowGet_def
  Number_def String_def isNaN_def isDisabled_def calculate_def mapGet_def closest_def
  interpolate_def jsub_def high_def parse_eval number_eval

lemmas statement_eval = rowAt_def heightNumber_def distance_def keyValue_def hasKey_def
  rowGet_def keys_def Number_def String_def isNaN_def high_def findHeightKey_def
  mentionsMouill_def toLowerCase_def toLowerChar_def startsWith_def parse_eval number_eval

section \<open>The index and the closest-row scan\<close>

lemma readValue_hasKey: "hasKey k r \<Longrightarrow> readValue r k = Inr (keyValue k r)"
  by (auto simp: hasKey_def readValue_def keyValue_def split: option.splits)

lemma buildMap_lookup:
  assumes "list_all (hasKey hk) rows"
  shows "\<exists>dm. buildMap hk m rows = Inr dm \<and>
           (\<forall>x. x \<noteq> NaN \<longrightarrow> map_of dm x =
              (case filter (\<lambda>r. heightNumber hk r = x) rows of
                 [] \<Rightarrow> map_of m x | r # rs \<Rightarrow> Some (last (r # rs)))) \<and>
           (dm = [] \<longleftrightarrow> m = [] \<and> list_all (\<lambda>r. isNaN (heightNumber hk r)) rows)"
  using assms
proof (induction rows arbitrary: m)
  case Nil
  show ?case by simp
next
  case (Cons r rows)
  then have hk: "hasKey hk r" and rest: "list_all (hasKey hk) rows" by simp_all
  show ?case
  proof (cases "isNaN (heightNumber hk r)")
    case True
    from Cons.IH[OF rest, of m] obtain dm where dm: "buildMap hk m rows = Inr dm"
      "\<forall>x. x \<noteq> NaN \<longrightarrow> map_of dm x =
              (case filter (\<lambda>r. heightNumber hk r = x) rows of
                 [] \<Rightarrow> map_of m x | r # rs \<Rightarrow> Some (last (r # rs)))"
      "dm = [] \<longleftrightarrow> m = [] \<and> list_all (\<lambda>r. isNaN (heightNumber hk r)) rows" by blast
    have "buildMap hk m (r # rows) = Inr dm"
      using True dm(1) by (simp add: readValue_hasKey[OF hk] heightNumber_def Let_def)
    moreover have "heightNumber hk r \<noteq> x" if "x \<noteq> NaN" for x
      using True that by (auto simp: isNaN_def)
    ultimately show ?thesis using dm(2,3) True by auto
  next
    case False
    let ?m' = "mapSet m (heightNumber hk r) r"
    from Cons.IH[OF rest, of ?m'] obtain dm where dm: "buildMap hk ?m' rows = Inr dm"
      "\<forall>x. x \<noteq> NaN \<longrightarrow> map_of dm x =
              (case filter (\<lambda>r. heightNumber hk r = x) rows of
                 [] \<Rightarrow> map_of ?m' x | r # rs \<Rightarrow> Some (last (r # rs)))"
      "dm = [] \<longleftrightarrow> ?m' = [] \<and> list_all (\<lambda>r. isNaN (heightNumber hk r)) rows" by blast
    have b: "buildMap hk m (r # rows) = Inr dm"
      using False dm(1) by (simp add: readValue_hasKey[OF hk] heightNumber_def Let_def)
    have ne: "?m' \<noteq> []" by (cases m) (auto split: if_splits)
    have l: "map_of dm x =
              (case filter (\<lambda>r. heightNumber hk r = x) (r # rows) of
                 [] \<Rightarrow> map_of m x | r # rs \<Rightarrow> Some (last (r # rs)))" if "x \<noteq> NaN" for x
      using dm(2) that by (auto simp: map_of_mapSet split: list.splits)
    show ?thesis using b l dm(3) ne False by auto
  qed
qed

lemma buildMap_rowAt:
  assumes "list_all (hasKey hk) rows"
  shows "\<exists>dm. buildMap hk [] rows = Inr dm \<and>
           (\<forall>x. x \<noteq> NaN \<longrightarrow> mapGet dm x = rowAt hk rows x) \<and>
           (dm = [] \<longleftrightarrow> list_all (\<lambda>r. isNaN (heightNumber hk r)) rows)"
proof -
  from buildMap_lookup[OF assms, of "[]"] obtain dm where dm: "buildMap hk [] rows = Inr dm"
    "\<forall>x. x \<noteq> NaN \<longrightarrow> map_of dm x =
              (case filter (\<lambda>r. heightNumber hk r = x) rows of
                 [] \<Rightarrow> map_of [] x | r # rs \<Rightarrow> Some (last (r # rs)))"
    "dm = [] \<longleftrightarrow> list_all (\<lambda>r. isNaN (heightNumber hk r)) rows" by auto
  have "mapGet dm x = rowAt hk rows x" if "x \<noteq> NaN" for x
    using dm(2) that by (auto simp: mapGet_def rowAt_def split: list.splits)
  then show ?thesis using dm(1,3) by blast
qed

lemma handleCalculate_unfold:
  assumes "rows = first # rest" "findHeightKey (keys first) = Some hk" "list_all (hasKey hk) rows"
  shows "\<exists>dm. buildMap hk [] rows = Inr dm \<and>
           (\<forall>x. x \<noteq> NaN \<longrightarrow> mapGet dm x = rowAt hk rows x) \<and>
           (dm = [] \<longleftrightarrow> list_all (\<lambda>r. isNaN (heightNumber hk r)) rows) \<and>
           handleCalculate (Some rows) sel wet =
             (if hk = [] \<or> sel = [] \<or> dm = []
              then Inr \<lparr>volume = Str ''N/A'', calculationNote = None\<rparr>
              else calculate rows hk dm sel wet)"
proof -
  from buildMap_rowAt[OF assms(3)] obtain dm where dm: "buildMap hk [] rows = Inr dm"
    "\<forall>x. x \<noteq> NaN \<longrightarrow> mapGet dm x = rowAt hk rows x"
    "dm = [] \<longleftrightarrow> list_all (\<lambda>r. isNaN (heightNumber hk r)) rows" by blast
  have cm: "computeMemo (Some rows) =
      Inr \<lparr>heightKey = Some hk, volumeKeys = filter (\<lambda>h. Some h \<noteq> Some hk) (keys first),
           dataMap = dm\<rparr>"
    using dm(1) assms(2) unfolding assms(1)
    by (simp add: computeMemo_def Let_def propKey_def del: buildMap.simps)
  have "handleCalculate (Some rows) sel wet =
             (if hk = [] \<or> sel = [] \<or> dm = []
              then Inr \<lparr>volume = Str ''N/A'', calculationNote = None\<rparr>
              else calculate rows hk dm sel wet)"
    unfolding handleCalculate_def cm by (simp add: isDisabled_def assms(1))
  with dm show ?thesis by blast
qed

lemma jless_trans: "jless a b \<Longrightarrow> jless b c \<Longrightarrow> jless a c"
  by (cases a; cases b; cases c) simp_all

lemma jless_not_trans: "jless r a \<Longrightarrow> \<not> jless x a \<Longrightarrow> x \<noteq> NaN \<Longrightarrow> jless r x"
  by (cases a; cases r; cases x) simp_all

lemma jless_not_NaN: "jless x m \<Longrightarrow> x \<noteq> NaN"
  by (cases x) simp_all

lemma distance_NaN: "isNaN (parseFloat (String (keyValue hk r))) \<Longrightarrow> \<not> jless (distance hk height r) m"
  by (simp add: distance_def isNaN_def jsub_def)

lemma closestScan_step:
  assumes "hasKey hk r"
  shows "closestScan hk height (c, m) (r # rs) =
           (if jless (distance hk height r) m
            then closestScan hk height (Some r, distance hk height r) rs
            else closestScan hk height (c, m) rs)"
  using distance_NaN[of hk r height m]
  by (auto simp: readValue_hasKey[OF assms] Let_def distance_def)

lemma closestScan_spec:
  assumes "list_all (hasKey hk) rows"
  shows "\<exists>c' m'. closestScan hk height (c, m) rows = Inr (c', m') \<and>
     ((c' = c \<and> m' = m \<and> list_all (\<lambda>x. \<not> jless (distance hk height x) m) rows) \<or>
      (\<exists>pre r post. rows = pre @ r # post \<and> c' = Some r \<and> m' = distance hk height r \<and>
          jless (distance hk height r) m \<and>
          list_all (\<lambda>x. jless (distance hk height x) m \<longrightarrow>
                         jless (distance hk height r) (distance hk height x)) pre \<and>
          list_all (\<lambda>x. \<not> jless (distance hk height x) (distance hk height r)) post))"
  using assms
proof (induction rows arbitrary: c m)
  case Nil
  show ?case by simp
next
  case (Cons a rows)
  then have ha: "hasKey hk a" and rest: "list_all (hasKey hk) rows" by simp_all
  let ?d = "distance hk height"
  show ?case
  proof (cases "jless (?d a) m")
    case True
    from Cons.IH[OF rest, of "Some a" "?d a"] obtain c' m' where
      scan: "closestScan hk height (Some a, ?d a) rows = Inr (c', m')" and
      alt: "(c' = Some a \<and> m' = ?d a \<and> list_all (\<lambda>x. \<not> jless (?d x) (?d a)) rows) \<or>
      (\<exists>pre r post. rows = pre @ r # post \<and> c' = Some r \<and> m' = ?d r \<and>
          jless (?d r) (?d a) \<and>
          list_all (\<lambda>x. jless (?d x) (?d a) \<longrightarrow> jless (?d r) (?d x)) pre \<and>
          list_all (\<lambda>x. \<not> jless (?d x) (?d r)) post)" by blast
    have s: "closestScan hk height (c, m) (a # rows) = Inr (c', m')"
      using True scan by (simp only: closestScan_step[OF ha] if_True)
    from alt show ?thesis
    proof
      assume "c' = Some a \<and> m' = ?d a \<and> list_all (\<lambda>x. \<not> jless (?d x) (?d a)) rows"
      then have "a # rows = [] @ a # rows \<and> c' = Some a \<and> m' = ?d a \<and> jless (?d a) m \<and>
          list_all (\<lambda>x. jless (?d x) m \<longrightarrow> jless (?d a) (?d x)) [] \<and>
          list_all (\<lambda>x. \<not> jless (?d x) (?d a)) rows" using True by simp
      then show ?thesis using s by blast
    next
      assume "\<exists>pre r post. rows = pre @ r # post \<and> c' = Some r \<and> m' = ?d r \<and>
          jless (?d r) (?d a) \<and>
          list_all (\<lambda>x. jless (?d x) (?d a) \<longrightarrow> jless (?d r) (?d x)) pre \<and>
          list_all (\<lambda>x. \<not> jless (?d x) (?d r)) post"
      then obtain pre r post where p: "rows = pre @ r # post" "c' = Some r" "m' = ?d r"
          "jless (?d r) (?d a)"
          "list_all (\<lambda>x. jless (?d x) (?d a) \<longrightarrow> jless (?d r) (?d x)) pre"
          "list_all (\<lambda>x. \<not> jless (?d x) (?d r)) post" by blast
      have rm: "jless (?d r) m" using p(4) True by (rule jless_trans)
      have "jless (?d r) (?d x)" if "x \<in> set pre" "jless (?d x) m" for x
      proof (cases "jless (?d x) (?d a)")
        case True
        with p(5) that(1) show ?thesis by (auto simp: list_all_iff)
      next
        case False
        from p(4) False jless_not_NaN[OF that(2)] show ?thesis by (rule jless_not_trans)
      qed
      then have "list_all (\<lambda>x. jless (?d x) m \<longrightarrow> jless (?d r) (?d x)) (a # pre)"
        using p(4) by (simp add: list_all_iff)
      then have "a # rows = (a # pre) @ r # post \<and> c' = Some r \<and> m' = ?d r \<and> jless (?d r) m \<and>
          list_all (\<lambda>x. jless (?d x) m \<longrightarrow> jless (?d r) (?d x)) (a # pre) \<and>
          list_all (\<lambda>x. \<not> jless (?d x) (?d r)) post" using p rm by simp
      then show ?thesis using s by blast
    qed
  next
    case False
    from Cons.IH[OF rest, of c m] obtain c' m' where
      scan: "closestScan hk height (c, m) rows = Inr (c', m')" and
      alt: "(c' = c \<and> m' = m \<and> list_all (\<lambda>x. \<not> jless (?d x) m) rows) \<or>
      (\<exists>pre r post. rows = pre @ r # post \<and> c' = Some r \<and> m' = ?d r \<and>
          jless (?d r) m \<and>
          list_all (\<lambda>x. jless (?d x) m \<longrightarrow> jless (?d r) (?d x)) pre \<and>
          list_all (\<lambda>x. \<not> jless (?d x) (?d r)) post)" by blast
    have s: "closestScan hk height (c, m) (a # rows) = Inr (c', m')"
      using False scan by (simp only: closestScan_step[OF ha] if_False)
    from alt show ?thesis
    proof
      assume "c' = c \<and> m' = m \<and> list_all (\<lambda>x. \<not> jless (?d x) m) rows"
      then show ?thesis using s False by simp
    next
      assume "\<exists>pre r post. rows = pre @ r # post \<and> c' = Some r \<and> m' = ?d r \<and>
          jless (?d r) m \<and>
          list_all (\<lambda>x. jless (?d x) m \<longrightarrow> jless (?d r) (?d x)) pre \<and>
          list_all (\<lambda>x. \<not> jless (?d x) (?d r)) post"
      then obtain pre r post where p: "rows = pre @ r # post" "c' = Some r" "m' = ?d r"
          "jless (?d r) m"
          "list_all (\<lambda>x. jless (?d x) m \<longrightarrow> jless (?d r) (?d x)) pre"
          "list_all (\<lambda>x. \<not> jless (?d x) (?d r)) post" by blast
      then have "a # rows = (a # pre) @ r # post \<and> c' = Some r \<and> m' = ?d r \<and> jless (?d r) m \<and>
          list_all (\<lambda>x. jless (?d x) m \<longrightarrow> jless (?d r) (?d x)) (a # pre) \<and>
          list_all (\<lambda>x. \<not> jless (?d x) (?d r)) post" using False by simp
      then show ?thesis using s by blast
    qed
  qed
qed

lemma Math_floor_NaN: "Math_floor x = NaN \<longleftrightarrow> x = NaN"
  by (cases x) simp_all

lemma Math_ceil_NaN: "Math_ceil x = NaN \<longleftrightarrow> x = NaN"
  by (cases x) simp_all

lemma rowAt_Some_heightNumber: "rowAt hk rows x = Some r \<Longrightarrow> r \<in> set rows \<and> heightNumber hk r = x"
proof -
  assume a: "rowAt hk rows x = Some r"
  then obtain y ys where f: "filter (\<lambda>r. heightNumber hk r = x) rows = y # ys"
    by (auto simp: rowAt_def split: list.splits)
  with a have "r = last (y # ys)" by (simp add: rowAt_def)
  then have "r \<in> set (filter (\<lambda>r. heightNumber hk r = x) rows)"
    unfolding f by (metis last_in_set list.distinct(1))
  then show ?thesis by simp
qed

lemma index_nonempty:
  assumes "rowAt hk rows x = Some r" "x \<noteq> NaN"
  shows "\<not> list_all (\<lambda>r. isNaN (heightNumber hk r)) rows"
  using rowAt_Some_heightNumber[OF assms(1)] assms(2) by (auto simp: list_all_iff isNaN_def)

lemma trim_blank: "list_all isWhiteSpace s \<Longrightarrow> trim s = []"
proof -
  assume "list_all isWhiteSpace s"
  then have "dropWhile isWhiteSpace s = []" by (simp add: dropWhile_eq_Nil_conv list_all_iff)
  then show ?thesis unfolding trim_def by (simp only: rev.simps dropWhile.simps)
qed

lemma parseFloat_0: "parseFloat ''0'' = Fin 0"
  by (simp add: parse_eval)

lemma find_filter: "List.find P xs = (case filter P xs of [] \<Rightarrow> None | x # _ \<Rightarrow> Some x)"
  by (induction xs) auto

section \<open>The cases of a calculation\<close>

text \<open>
  The handler on a dataset whose rows all have the height column, case by case: the index is
  empty; a row is kept at the queried height; rows are kept at its floor and at its ceiling;
  and the scan for the closest row.
\<close>

lemma numericValue_Number: "numericValue v \<Longrightarrow> \<not> isNaN (Number v)"
  by (cases v) (auto simp: numericValue_def Number_def isFinite_def isNaN_def split: jsnum.splits)

lemma keyValue_rowGet: "rowGet r k = Some c \<Longrightarrow> keyValue k r = cellValue c"
  by (simp add: keyValue_def)

lemma hasKey_rowGet: "hasKey k r \<Longrightarrow> \<exists>c. rowGet r k = Some c \<and> keyValue k r = cellValue c"
  by (auto simp: hasKey_def keyValue_def)


lemma calc_exact:
  assumes "rows = first # rest" "findHeightKey (keys first) = Some hk" "hk \<noteq> []" "sel \<noteq> []"
    and "list_all (hasKey hk) rows"
    and "parseFloat wet = height" "\<not> isNaN height"
    and "rowAt hk rows height = Some r"
    and "rowGet r sel = Some c"
  shows "handleCalculate (Some rows) sel wet =
           Inr \<lparr>volume = cellValue c, calculationNote = Some ''Exact value found in table.''\<rparr>"
proof -
  from handleCalculate_unfold[OF assms(1,2,5), of sel wet] obtain dm where
    dm: "\<forall>x. x \<noteq> NaN \<longrightarrow> mapGet dm x = rowAt hk rows x"
      "dm = [] \<longleftrightarrow> list_all (\<lambda>r. isNaN (heightNumber hk r)) rows"
      "handleCalculate (Some rows) sel wet =
             (if hk = [] \<or> sel = [] \<or> dm = []
              then Inr \<lparr>volume = Str ''N/A'', calculationNote = None\<rparr>
              else calculate rows hk dm sel wet)" by blast
  have h: "height \<noteq> NaN" using assms(7) by (simp add: isNaN_def)
  have ne: "dm \<noteq> []" using index_nonempty[OF assms(8) h] dm(2) by simp
  have g: "mapGet dm height = Some r" using dm(1) h assms(8) by simp
  have "handleCalculate (Some rows) sel wet = calculate rows hk dm sel wet"
    using dm(3) ne assms(3,4) by simp
  also have "\<dots> = Inr \<lparr>volume = cellValue c, calculationNote = Some ''Exact value found in table.''\<rparr>"
    using g assms(6,7,9) by (simp add: calculate_def Let_def readValue_def)
  finally show ?thesis .
qed

lemma calc_interpolated:
  assumes "rows = first # rest" "findHeightKey (keys first) = Some hk" "hk \<noteq> []" "sel \<noteq> []"
    and "list_all (hasKey hk) rows"
    and "parseFloat wet = height" "\<not> isNaN height"
    and "rowAt hk rows height = None"
    and "rowAt hk rows (Math_floor height) = Some lowerRow"
    and "rowAt hk rows (Math_ceil height) = Some upperRow"
    and "rowGet lowerRow sel = Some lc" "rowGet upperRow sel = Some uc"
    and "\<not> isNaN (Number (cellValue lc))" "\<not> isNaN (Number (cellValue uc))"
  shows "handleCalculate (Some rows) sel wet =
     Inr \<lparr>volume = Str (toFixed2 (jadd (Number (cellValue lc))
                (jmul (jsub (Number (cellValue uc)) (Number (cellValue lc)))
                      (jsub height (Math_floor height))))),
          calculationNote = Some (''Interpolated between '' @ NumberToString (Math_floor height) @
                                  '' and '' @ NumberToString (Math_ceil height) @ ''.'')\<rparr>"
proof -
  from handleCalculate_unfold[OF assms(1,2,5), of sel wet] obtain dm where
    dm: "\<forall>x. x \<noteq> NaN \<longrightarrow> mapGet dm x = rowAt hk rows x"
      "dm = [] \<longleftrightarrow> list_all (\<lambda>r. isNaN (heightNumber hk r)) rows"
      "handleCalculate (Some rows) sel wet =
             (if hk = [] \<or> sel = [] \<or> dm = []
              then Inr \<lparr>volume = Str ''N/A'', calculationNote = None\<rparr>
              else calculate rows hk dm sel wet)" by blast
  have h: "height \<noteq> NaN" using assms(7) by (simp add: isNaN_def)
  then have fl: "Math_floor height \<noteq> NaN" and ce: "Math_ceil height \<noteq> NaN"
    by (simp_all add: Math_floor_NaN Math_ceil_NaN)
  have ne: "dm \<noteq> []" using index_nonempty[OF assms(9) fl] dm(2) by simp
  have g: "mapGet dm height = None" "mapGet dm (Math_floor height) = Some lowerRow"
    "mapGet dm (Math_ceil height) = Some upperRow"
    using dm(1) h fl ce assms(8,9,10) by simp_all
  have "handleCalculate (Some rows) sel wet = calculate rows hk dm sel wet"
    using dm(3) ne assms(3,4) by simp
  also have "\<dots> = interpolate lowerRow upperRow sel height (Math_floor height) (Math_ceil height)"
    using assms(6,7) g by (simp add: calculate_def Let_def)
  finally show ?thesis
    using assms(11-14) by (simp add: interpolate_def readValue_def Let_def)
qed

lemma calc_scan:
  assumes "rows = first # rest" "findHeightKey (keys first) = Some hk" "hk \<noteq> []" "sel \<noteq> []"
    and "list_all (hasKey hk) rows"
    and "parseFloat wet = height" "\<not> isNaN height"
    and "\<not> list_all (\<lambda>r. isNaN (heightNumber hk r)) rows"
    and "rowAt hk rows height = None"
    and "rowAt hk rows (Math_floor height) = None \<or> rowAt hk rows (Math_ceil height) = None"
  shows "(list_all (\<lambda>x. \<not> jless (distance hk height x) PosInf) rows \<and>
          handleCalculate (Some rows) sel wet =
            Inr \<lparr>volume = Str ''No match found'', calculationNote = None\<rparr>) \<or>
         (\<exists>pre r post. rows = pre @ r # post \<and> jless (distance hk height r) PosInf \<and>
            list_all (\<lambda>x. jless (distance hk height x) PosInf \<longrightarrow>
                           jless (distance hk height r) (distance hk height x)) pre \<and>
            list_all (\<lambda>x. \<not> jless (distance hk height x) (distance hk height r)) post \<and>
            handleCalculate (Some rows) sel wet =
              (case rowGet r sel of
                 None \<Rightarrow> Inl TypeError
               | Some c \<Rightarrow>
                   Inr \<lparr>volume = cellValue c,
                        calculationNote =
                          Some (''No exact match. Showing value for closest height: '' @
                                String (keyValue hk r) @ ''.'')\<rparr>))"
proof -
  from handleCalculate_unfold[OF assms(1,2,5), of sel wet] obtain dm where
    dm: "\<forall>x. x \<noteq> NaN \<longrightarrow> mapGet dm x = rowAt hk rows x"
      "dm = [] \<longleftrightarrow> list_all (\<lambda>r. isNaN (heightNumber hk r)) rows"
      "handleCalculate (Some rows) sel wet =
             (if hk = [] \<or> sel = [] \<or> dm = []
              then Inr \<lparr>volume = Str ''N/A'', calculationNote = None\<rparr>
              else calculate rows hk dm sel wet)" by blast
  have h: "height \<noteq> NaN" using assms(7) by (simp add: isNaN_def)
  then have fl: "Math_floor height \<noteq> NaN" and ce: "Math_ceil height \<noteq> NaN"
    by (simp_all add: Math_floor_NaN Math_ceil_NaN)
  have g: "mapGet dm height = None"
    "mapGet dm (Math_floor height) = None \<or> mapGet dm (Math_ceil height) = None"
    using dm(1) h fl ce assms(9,10) by auto
  have "handleCalculate (Some rows) sel wet = calculate rows hk dm sel wet"
    using dm(2,3) assms(3,4,8) by simp
  also have "\<dots> = closest rows hk sel height"
    using assms(6,7) g by (auto simp: calculate_def Let_def split: option.splits)
  finally have hc: "handleCalculate (Some rows) sel wet = closest rows hk sel height" .
  from closestScan_spec[OF assms(5), of height None PosInf] obtain c' m' where
    scan: "closestScan hk height (None, PosInf) rows = Inr (c', m')" and
    alt: "(c' = None \<and> m' = PosInf \<and> list_all (\<lambda>x. \<not> jless (distance hk height x) PosInf) rows) \<or>
      (\<exists>pre r post. rows = pre @ r # post \<and> c' = Some r \<and> m' = distance hk height r \<and>
          jless (distance hk height r) PosInf \<and>
          list_all (\<lambda>x. jless (distance hk height x) PosInf \<longrightarrow>
                         jless (distance hk height r) (distance hk height x)) pre \<and>
          list_all (\<lambda>x. \<not> jless (distance hk height x) (distance hk height r)) post)" by blast
  from alt show ?thesis
  proof
    assume a: "c' = None \<and> m' = PosInf \<and> list_all (\<lambda>x. \<not> jless (distance hk height x) PosInf) rows"
    then have "closest rows hk sel height = Inr \<lparr>volume = Str ''No match found'', calculationNote = None\<rparr>"
      using scan by (simp add: closest_def)
    with a hc show ?thesis by simp
  next
    assume "\<exists>pre r post. rows = pre @ r # post \<and> c' = Some r \<and> m' = distance hk height r \<and>
          jless (distance hk height r) PosInf \<and>
          list_all (\<lambda>x. jless (distance hk height x) PosInf \<longrightarrow>
                         jless (distance hk height r) (distance hk height x)) pre \<and>
          list_all (\<lambda>x. \<not> jless (distance hk height x) (distance hk height r)) post"
    then obtain pre r post where p: "rows = pre @ r # post" "c' = Some r"
          "jless (distance hk height r) PosInf"
          "list_all (\<lambda>x. jless (distance hk height x) PosInf \<longrightarrow>
                         jless (distance hk height r) (distance hk height x)) pre"
          "list_all (\<lambda>x. \<not> jless (distance hk height x) (distance hk height r)) post" by blast
    have "r \<in> set rows" using p(1) by simp
    then have "hasKey hk r" using assms(5) by (simp add: list_all_iff)
    then obtain ch where ch: "rowGet r hk = Some ch" by (auto simp: hasKey_def)
    then have kv: "keyValue hk r = cellValue ch" by (simp add: keyValue_def)
    have "closest rows hk sel height =
              (case rowGet r sel of
                 None \<Rightarrow> Inl TypeError
               | Some c \<Rightarrow>
                   Inr \<lparr>volume = cellValue c,
                        calculationNote =
                          Some (''No exact match. Showing value for closest height: '' @
                                String (keyValue hk r) @ ''.'')\<rparr>)"
      using scan p(2) by (simp add: closest_def readValue_def ch kv split: option.splits)
    with p hc show ?thesis by auto
  qed
qed

text \<open>
  The scan on a dataset whose heights read alike and lie at a finite distance from the
  query: it returns a row with a numeric height, nearer than every numeric row before it
  and not farther than any row after it.
\<close>

lemma distance_numeric:
  assumes "readsAlike hk r" "jless (distance hk height r) m"
  shows "numericHeight hk r"
proof -
  have "\<not> isNaN (parseFloat (String (keyValue hk r)))"
    using distance_NaN[of hk r height m] assms(2) by blast
  then show ?thesis using assms(1) by (simp add: readsAlike_def numericHeight_def)
qed

lemma calc_nearest:
  assumes "rows = first # rest" "findHeightKey (keys first) = Some hk" "hk \<noteq> []" "sel \<noteq> []"
    and "list_all (hasKey hk) rows" "list_all (hasKey sel) rows"
    and "parseFloat wet = height" "\<not> isNaN height"
    and "list_all (readsAlike hk) rows"
    and "list_all (\<lambda>r. numericHeight hk r \<longrightarrow> jless (distance hk height r) PosInf) rows"
    and "\<not> list_all (\<lambda>r. \<not> numericHeight hk r) rows"
    and "rowAt hk rows height = None"
    and "rowAt hk rows (Math_floor height) = None \<or> rowAt hk rows (Math_ceil height) = None"
  shows "\<exists>pre r post. rows = pre @ r # post \<and> numericHeight hk r \<and>
            list_all (\<lambda>x. numericHeight hk x \<longrightarrow>
                           jless (distance hk height r) (distance hk height x)) pre \<and>
            list_all (\<lambda>x. \<not> jless (distance hk height x) (distance hk height r)) post \<and>
            handleCalculate (Some rows) sel wet =
              Inr \<lparr>volume = keyValue sel r,
                   calculationNote =
                     Some (''No exact match. Showing value for closest height: '' @
                           String (keyValue hk r) @ ''.'')\<rparr>"
proof -
  have ne: "\<not> list_all (\<lambda>r. isNaN (heightNumber hk r)) rows"
    using assms(11) by (simp add: numericHeight_def)
  from assms(11) obtain x where x: "x \<in> set rows" "numericHeight hk x"
    by (auto simp: list_all_iff)
  then have "jless (distance hk height x) PosInf" using assms(10) by (auto simp: list_all_iff)
  then have some: "\<not> list_all (\<lambda>x. \<not> jless (distance hk height x) PosInf) rows"
    using x(1) by (auto simp: list_all_iff)
  from calc_scan[OF assms(1-5,7,8) ne assms(12,13)] some
  obtain pre r post where p: "rows = pre @ r # post" "jless (distance hk height r) PosInf"
      "list_all (\<lambda>x. jless (distance hk height x) PosInf \<longrightarrow>
                     jless (distance hk height r) (distance hk height x)) pre"
      "list_all (\<lambda>x. \<not> jless (distance hk height x) (distance hk height r)) post"
      "handleCalculate (Some rows) sel wet =
              (case rowGet r sel of
                 None \<Rightarrow> Inl TypeError
               | Some c \<Rightarrow>
                   Inr \<lparr>volume = cellValue c,
                        calculationNote =
                          Some (''No exact match. Showing value for closest height: '' @
                                String (keyValue hk r) @ ''.'')\<rparr>)"
    by blast
  have mem: "r \<in> set rows" using p(1) by simp
  then have "readsAlike hk r" using assms(9) by (simp add: list_all_iff)
  then have num: "numericHeight hk r" using p(2) by (rule distance_numeric)
  from mem assms(6) have "hasKey sel r" by (simp add: list_all_iff)
  then obtain c where c: "rowGet r sel = Some c" "keyValue sel r = cellValue c"
    using hasKey_rowGet by blast
  have pre: "list_all (\<lambda>x. numericHeight hk x \<longrightarrow>
                           jless (distance hk height r) (distance hk height x)) pre"
  proof -
    have "jless (distance hk height r) (distance hk height x)"
      if "x \<in> set pre" "numericHeight hk x" for x
    proof -
      from that(1) have "x \<in> set rows" using p(1) by simp
      with that(2) assms(10) have "jless (distance hk height x) PosInf"
        by (auto simp: list_all_iff)
      with p(3) that(1) show ?thesis by (auto simp: list_all_iff)
    qed
    then show ?thesis by (simp add: list_all_iff)
  qed
  have "handleCalculate (Some rows) sel wet =
              Inr \<lparr>volume = keyValue sel r,
                   calculationNote =
                     Some (''No exact match. Showing value for closest height: '' @
                           String (keyValue hk r) @ ''.'')\<rparr>"
    using p(5) c by simp
  with p(1,4) num pre show ?thesis by blast
qed

lemmas notion_eval = numericValue_def isFinite_def numericHeight_def readsAlike_def

section \<open>Printing with two decimals\<close>

lemma digit_char:
  assumes "0 \<le> d" "d \<le> 9"
  shows "isDigit (char_of (48 + d :: int))" "digitValue (char_of (48 + d :: int)) = d"
proof -
  have i: "(of_char (char_of (48 + d :: int)) :: int) = 48 + d"
    using assms by (simp add: of_char_of)
  have "int (of_char (char_of (48 + d :: int)) :: nat) = 48 + d"
    using i by (simp only: of_nat_of_char)
  then show "isDigit (char_of (48 + d :: int))"
    using assms unfolding isDigit_def by linarith
  show "digitValue (char_of (48 + d :: int)) = d"
    using assms by (simp add: digitValue_def i Let_def)
qed

lemma digitsValue_snoc: "digitsValue b (ds @ [c]) = digitsValue b ds * b + digitValue c"
  by (simp add: digitsValue_def)

lemma digitsOf_spec:
  "0 \<le> n \<Longrightarrow> digitsOf n \<noteq> [] \<and> list_all isDigit (digitsOf n) \<and> digitsValue 10 (digitsOf n) = n"
proof (induction n rule: digitsOf.induct)
  case (1 n)
  show ?case
  proof (cases "n < 10")
    case True
    then have d: "digitsOf n = [char_of (48 + n)]" using 1(2) by (simp add: digitsOf.simps)
    from True 1(2) have "0 \<le> n" "n \<le> 9" by simp_all
    from digit_char[OF this] show ?thesis by (simp add: d digitsValue_def)
  next
    case False
    then have d: "digitsOf n = digitsOf (n div 10) @ [char_of (48 + n mod 10)]"
      by (subst digitsOf.simps) simp
    have "0 \<le> n div 10" using 1(2) by simp
    from 1(1)[OF False this] have ih: "list_all isDigit (digitsOf (n div 10))"
      "digitsValue 10 (digitsOf (n div 10)) = n div 10" by simp_all
    have "0 \<le> n mod 10" "n mod 10 \<le> 9" by presburger+
    from digit_char[OF this] show ?thesis
      by (simp add: d ih digitsValue_snoc)
  qed
qed

lemma digitsValue_zeros: "digitsValue 10 (replicate k CHR ''0'' @ m) = digitsValue 10 m"
proof -
  have "foldl (\<lambda>acc c. acc * 10 + digitValue c) 0 (replicate k CHR ''0'') = 0"
    by (induction k) (simp_all add: digitValue_def)
  then show ?thesis by (simp add: digitsValue_def)
qed

lemma isDigit_zero: "isDigit CHR ''0''"
  by (simp add: isDigit_def)

text \<open>
  \<open>toFixed(2)\<close> on a number below \<open>10 ^ 21\<close> in magnitude prints a sign, at least one digit,
  a point and two digits, and the number printed is a nearest multiple of a hundredth. At
  \<open>10 ^ 21\<close> and above it prints what \<open>String\<close> prints.
\<close>

lemma toFixed2_two_decimals:
  assumes "\<bar>x\<bar> < 10 ^ 21"
  shows "\<exists>ds d1 d2. toFixed2 (Fin x) = (if x < 0 then ''-'' else []) @ ds @ [CHR ''.'', d1, d2] \<and>
           ds \<noteq> [] \<and> list_all isDigit (ds @ [d1, d2]) \<and>
           \<bar>rat_of_int (digitsValue 10 (ds @ [d1, d2])) / 100 - \<bar>x\<bar>\<bar> \<le> 1 / 200"
proof -
  define n where "n = \<lfloor>\<bar>x\<bar> * 100 + 1 / 2\<rfloor>"
  define m where "m = digitsOf n"
  define m' where "m' = replicate (3 - length m) CHR ''0'' @ m"
  have n0: "0 \<le> n" unfolding n_def by simp
  from digitsOf_spec[OF n0] have m: "list_all isDigit m" "digitsValue 10 m = n"
    by (simp_all add: m_def)
  have len: "3 \<le> length m'" by (simp add: m'_def)
  have dig: "list_all isDigit m'" using m(1) isDigit_zero by (auto simp: m'_def list_all_iff)
  have val: "digitsValue 10 m' = n" using m(2) by (simp add: m'_def digitsValue_zeros)
  define ds where "ds = take (length m' - 2) m'"
  define tl2 where "tl2 = drop (length m' - 2) m'"
  have "length tl2 = 2" using len by (simp add: tl2_def)
  then obtain d1 d2 where t: "tl2 = [d1, d2]"
    by (cases tl2; simp) (metis Suc_length_conv length_0_conv)
  have split: "ds @ [d1, d2] = m'" unfolding ds_def t[symmetric] tl2_def by simp
  have ne: "ds \<noteq> []" using len by (auto simp: ds_def)
  have c: "\<not> 10 ^ 21 \<le> \<bar>x\<bar>" using assms by simp
  have "toFixed2 (Fin x) = (if x < 0 then ''-'' else []) @ ds @ ''.'' @ tl2"
    by (simp only: toFixed2.simps c if_False Let_def n_def m_def m'_def ds_def tl2_def)
  then have fx: "toFixed2 (Fin x) = (if x < 0 then ''-'' else []) @ ds @ [CHR ''.'', d1, d2]"
    by (simp only: t append_Cons append_Nil)
  have "rat_of_int n \<le> \<bar>x\<bar> * 100 + 1 / 2" "\<bar>x\<bar> * 100 + 1 / 2 < rat_of_int n + 1"
    unfolding n_def by linarith+
  then have e: "\<bar>rat_of_int n - \<bar>x\<bar> * 100\<bar> \<le> 1 / 2" by linarith
  have "\<bar>rat_of_int n / 100 - \<bar>x\<bar>\<bar> = \<bar>(rat_of_int n - \<bar>x\<bar> * 100) / 100\<bar>"
    by (simp add: diff_divide_distrib)
  also have "\<dots> = \<bar>rat_of_int n - \<bar>x\<bar> * 100\<bar> / 100" by (simp only: abs_divide abs_numeral)
  also have "\<dots> \<le> (1 / 2) / 100" using e by (rule divide_right_mono) simp
  finally have "\<bar>rat_of_int n / 100 - \<bar>x\<bar>\<bar> \<le> 1 / 200" by simp
  then show ?thesis using fx ne dig val split by (metis (no_types))
qed

lemma toFixed2_eighth: "toFixed2 (Fin (1 / 8)) = ''0.13''"
  by (simp add: digits_eval Let_def)

text \<open>
  The example of the dataset with height 20 and target 200, and height 21 and target 201.3
  (the binary64 number nearest to it): the query 20.5 gives the binary64 number
  \<open>7059744259624141 / 2 ^ 45\<close>, a little above 200.65, which is printed as \<open>200.65\<close>.
\<close>

lemma literal_201_3: "rd (2013 / 10) = Fin (3541307050740941 / 2 ^ 44)"
  using rd_normal[of 7 "2013 / 10"] by (simp add: round_half_even_def Let_def)

lemma interpolated_200_65:
  "jadd (Fin 200) (jmul (jsub (rd (2013 / 10)) (Fin 200)) (jsub (Fin (41 / 2)) (Fin 20)))
     = Fin (7059744259624141 / 2 ^ 45)"
proof -
  have s1: "jsub (rd (2013 / 10)) (Fin 200) = Fin (22869841857741 / 2 ^ 44)"
    using rd_dyadic[of 22869841857741 "- 44"] by (simp add: literal_201_3 jsub_def)
  have s2: "jsub (Fin (41 / 2)) (Fin 20) = Fin (1 / 2)"
    using rd_dyadic[of 1 "- 1"] by (simp add: jsub_def)
  have s3: "jmul (Fin (22869841857741 / 2 ^ 44)) (Fin (1 / 2)) = Fin (22869841857741 / 2 ^ 45)"
    using rd_dyadic[of 22869841857741 "- 45"] by simp
  have s4: "jadd (Fin 200) (Fin (22869841857741 / 2 ^ 45)) = Fin (7059744259624141 / 2 ^ 45)"
    using rd_dyadic[of 7059744259624141 "- 45"] by simp
  show ?thesis unfolding s1 s2 s3 s4 ..
qed

lemma toFixed2_200_65: "toFixed2 (Fin (7059744259624141 / 2 ^ 45)) = ''200.65''"
  by (simp add: digits_eval Let_def)

lemma example_200_65:
  "handleCalculate
     (Some [[(''h'', high (Num (Fin 20))), (''v'', high (Num (Fin 200)))],
            [(''h'', high (Num (Fin 21))), (''v'', high (Num (rd (2013 / 10))))]])
     ''v'' ''20.5''
   = Inr \<lparr>volume = Str ''200.65'',
          calculationNote = Some ''Interpolated between 20 and 21.''\<rparr>"
proof -
  let ?rows = "[[(''h'', high (Num (Fin 20))), (''v'', high (Num (Fin 200)))],
            [(''h'', high (Num (Fin 21))), (''v'', high (Num (rd (2013 / 10))))]]"
  have nn: "rd (2013 / 10) \<noteq> NaN" by (simp add: literal_201_3)
  have p: "parseFloat ''20.5'' = Fin (41 / 2)"
    using rd_dyadic[of 41 "- 1"] by (simp add: parse_eval)
  have "handleCalculate (Some ?rows) ''v'' ''20.5'' =
     Inr \<lparr>volume = Str (toFixed2 (jadd (Fin 200)
                (jmul (jsub (rd (2013 / 10)) (Fin 200)) (jsub (Fin (41 / 2)) (Fin 20))))),
          calculationNote = Some ''Interpolated between 20 and 21.''\<rparr>"
    using nn
    by (simp add: handleCalculate_def computeMemo_def findHeightKey_def mentionsMouill_def
        toLowerCase_def toLowerChar_def startsWith_def keys_def propKey_def readValue_def
        rowGet_def Number_def isNaN_def isDisabled_def calculate_def mapGet_def interpolate_def
        high_def p number_eval del: jadd.simps jmul.simps)
  then show ?thesis by (simp only: interpolated_200_65 toFixed2_200_65)
qed

lemma rd_1e21:
  "rd 1000000000000000000000 = Fin 1000000000000000000000"
  "rd 2000000000000000000000 = Fin 2000000000000000000000"
  "rd 10000000000000000000000 = Fin 10000000000000000000000"
  using rd_dyadic[of 476837158203125 21] rd_dyadic[of 476837158203125 22]
    rd_dyadic[of 2384185791015625 22] by simp_all

lemma NumberToString_1e21: "NumberToString (Fin 1000000000000000000000) = ''1e+21''"
  by (simp add: number_eval rd_1e21 quotient_of_int)

section \<open>Properties of the volume calculator\<close>

text \<open>
  In the statements below the outcome of a calculation is read off the state the handler
  leaves: the note \<open>Exact value found in table.\<close> is the status \<open>exact\<close>, a note
  \<open>Interpolated between ...\<close> the status \<open>interpolated\<close>, a note \<open>No exact match. Showing
  value for closest height: ...\<close> the status \<open>nearest\<close>, the volume \<open>No match found\<close> the
  status \<open>not-found\<close>, \<open>Data not numeric\<close> the status \<open>non-numeric\<close>, \<open>Invalid input\<close> the
  status \<open>invalid-input\<close> and \<open>N/A\<close> the status \<open>unavailable\<close>.
\<close>

text \<open>
  Claim C4, as amended. For a dataset whose first row has at least one column, the height
  column is the first column of the first row whose name, in lower case, contains \<open>mouill\<close>,
  and the first column of the first row only when no column name does. When every row has
  that column and the selected target column, and the query parses as a number, the three
  lookups read that column: the exact match returns the target value of the row that the
  index keeps at the queried height in that column; the interpolation takes the rows that the
  index keeps at the floor and at the ceiling of the queried height in that column (their
  target values being numeric); and the nearest-neighbour scan returns the first row whose
  height in that column is nearest to the query (the heights reading alike for the index
  and the scan, and lying at a finite distance from the query).
\<close>

theorem height_column:
  assumes "rows = first # rest" "keys first = h0 # hs"
    and "hk = (case filter mentionsMouill (keys first) of [] \<Rightarrow> h0 | h # _ \<Rightarrow> h)"
    and "hk \<noteq> []" "sel \<noteq> []"
    and "list_all (hasKey hk) rows" "list_all (hasKey sel) rows"
    and "parseFloat wet = height" "\<not> isNaN height"
  shows "findHeightKey (keys first) = Some hk \<and>
     (\<forall>r. rowAt hk rows height = Some r \<longrightarrow>
        handleCalculate (Some rows) sel wet =
          Inr \<lparr>volume = keyValue sel r,
               calculationNote = Some ''Exact value found in table.''\<rparr>) \<and>
     (\<forall>l u. rowAt hk rows height = None \<and> rowAt hk rows (Math_floor height) = Some l \<and>
           rowAt hk rows (Math_ceil height) = Some u \<and>
           numericValue (keyValue sel l) \<and> numericValue (keyValue sel u) \<longrightarrow>
        handleCalculate (Some rows) sel wet =
          Inr \<lparr>volume = Str (toFixed2 (jadd (Number (keyValue sel l))
                     (jmul (jsub (Number (keyValue sel u)) (Number (keyValue sel l)))
                           (jsub height (Math_floor height))))),
               calculationNote =
                 Some (''Interpolated between '' @ NumberToString (Math_floor height) @
                       '' and '' @ NumberToString (Math_ceil height) @ ''.'')\<rparr>) \<and>
     (rowAt hk rows height = None \<and>
      (rowAt hk rows (Math_floor height) = None \<or> rowAt hk rows (Math_ceil height) = None) \<and>
      list_all (readsAlike hk) rows \<and>
      list_all (\<lambda>r. numericHeight hk r \<longrightarrow> jless (distance hk height r) PosInf) rows \<and>
      \<not> list_all (\<lambda>r. \<not> numericHeight hk r) rows \<longrightarrow>
        (\<exists>pre r post. rows = pre @ r # post \<and> numericHeight hk r \<and>
            list_all (\<lambda>x. numericHeight hk x \<longrightarrow>
                           jless (distance hk height r) (distance hk height x)) pre \<and>
            list_all (\<lambda>x. \<not> jless (distance hk height x) (distance hk height r)) post \<and>
            handleCalculate (Some rows) sel wet =
              Inr \<lparr>volume = keyValue sel r,
                   calculationNote =
                     Some (''No exact match. Showing value for closest height: '' @
                           String (keyValue hk r) @ ''.'')\<rparr>))"
proof -
  have f: "findHeightKey (keys first) = Some hk"
    unfolding findHeightKey_def find_filter assms(3) assms(2)
    by (simp split: list.splits)
  note base = assms(1) f assms(4,5,6)
  have sel: "\<exists>c. rowGet r sel = Some c \<and> keyValue sel r = cellValue c" if "r \<in> set rows" for r
    using that assms(7) hasKey_rowGet by (auto simp: list_all_iff)
  have exact: "handleCalculate (Some rows) sel wet =
          Inr \<lparr>volume = keyValue sel r,
               calculationNote = Some ''Exact value found in table.''\<rparr>"
    if at: "rowAt hk rows height = Some r" for r
  proof -
    from rowAt_Some_heightNumber[OF at] sel obtain c where
      c: "rowGet r sel = Some c" "keyValue sel r = cellValue c" by blast
    show ?thesis using calc_exact[OF base assms(8,9) at c(1)] c(2) by simp
  qed
  have interp: "handleCalculate (Some rows) sel wet =
          Inr \<lparr>volume = Str (toFixed2 (jadd (Number (keyValue sel l))
                     (jmul (jsub (Number (keyValue sel u)) (Number (keyValue sel l)))
                           (jsub height (Math_floor height))))),
               calculationNote =
                 Some (''Interpolated between '' @ NumberToString (Math_floor height) @
                       '' and '' @ NumberToString (Math_ceil height) @ ''.'')\<rparr>"
    if no: "rowAt hk rows height = None" and lo: "rowAt hk rows (Math_floor height) = Some l"
      and up: "rowAt hk rows (Math_ceil height) = Some u"
      and nl: "numericValue (keyValue sel l)" and nu: "numericValue (keyValue sel u)" for l u
  proof -
    from rowAt_Some_heightNumber[OF lo] sel obtain lc where
      lc: "rowGet l sel = Some lc" "keyValue sel l = cellValue lc" by blast
    from rowAt_Some_heightNumber[OF up] sel obtain uc where
      uc: "rowGet u sel = Some uc" "keyValue sel u = cellValue uc" by blast
    have "\<not> isNaN (Number (cellValue lc))" "\<not> isNaN (Number (cellValue uc))"
      using nl nu lc(2) uc(2) numericValue_Number by auto
    from calc_interpolated[OF base assms(8,9) no lo up lc(1) uc(1) this]
    show ?thesis by (simp add: lc(2) uc(2))
  qed
  have near: "\<exists>pre r post. rows = pre @ r # post \<and> numericHeight hk r \<and>
            list_all (\<lambda>x. numericHeight hk x \<longrightarrow>
                           jless (distance hk height r) (distance hk height x)) pre \<and>
            list_all (\<lambda>x. \<not> jless (distance hk height x) (distance hk height r)) post \<and>
            handleCalculate (Some rows) sel wet =
              Inr \<lparr>volume = keyValue sel r,
                   calculationNote =
                     Some (''No exact match. Showing value for closest height: '' @
                           String (keyValue hk r) @ ''.'')\<rparr>"
    if "rowAt hk rows height = None"
      "rowAt hk rows (Math_floor height) = None \<or> rowAt hk rows (Math_ceil height) = None"
      "list_all (readsAlike hk) rows"
      "list_all (\<lambda>r. numericHeight hk r \<longrightarrow> jless (distance hk height r) PosInf) rows"
      "\<not> list_all (\<lambda>r. \<not> numericHeight hk r) rows"
    using calc_nearest[OF base assms(7,8,9) that(3,4,5,1,2)] .
  show ?thesis using f exact interp near by blast
qed

theorem height_column_witness:
  "(let first = [(''id'', high (Num (Fin 1))), (''Mouille'', high (Num (Fin 5))),
                 (''v'', high (Num (Fin 200)))];
        second = [(''id'', high (Num (Fin 2))), (''Mouille'', high (Num (Fin 6))),
                  (''v'', high (Num (Fin 300)))];
        rows = first # [second]
    in keys first = ''id'' # [''Mouille'', ''v''] \<and>
       ''Mouille'' = (case filter mentionsMouill (keys first) of [] \<Rightarrow> ''id'' | h # _ \<Rightarrow> h) \<and>
       ''Mouille'' \<noteq> [] \<and> ''v'' \<noteq> [] \<and>
       list_all (hasKey ''Mouille'') rows \<and> list_all (hasKey ''v'') rows \<and>
       findHeightKey (keys first) = Some ''Mouille'' \<and>
       parseFloat ''5'' = Fin 5 \<and> \<not> isNaN (Fin 5) \<and>
       rowAt ''Mouille'' rows (Fin 5) = Some first \<and>
       handleCalculate (Some rows) ''v'' ''5'' =
         Inr \<lparr>volume = Num (Fin 200), calculationNote = Some ''Exact value found in table.''\<rparr> \<and>
       parseFloat ''5.5'' = Fin (11 / 2) \<and> \<not> isNaN (Fin (11 / 2)) \<and>
       rowAt ''Mouille'' rows (Fin (11 / 2)) = None \<and>
       rowAt ''Mouille'' rows (Math_floor (Fin (11 / 2))) = Some first \<and>
       rowAt ''Mouille'' rows (Math_ceil (Fin (11 / 2))) = Some second \<and>
       numericValue (keyValue ''v'' first) \<and> numericValue (keyValue ''v'' second) \<and>
       handleCalculate (Some rows) ''v'' ''5.5'' =
         Inr \<lparr>volume = Str ''250.00'',
              calculationNote = Some ''Interpolated between 5 and 6.''\<rparr> \<and>
       parseFloat ''9'' = Fin 9 \<and> \<not> isNaN (Fin 9) \<and>
       rowAt ''Mouille'' rows (Fin 9) = None \<and>
       rowAt ''Mouille'' rows (Math_floor (Fin 9)) = None \<and>
       list_all (readsAlike ''Mouille'') rows \<and>
       list_all (\<lambda>r. numericHeight ''Mouille'' r \<and> jless (distance ''Mouille'' (Fin 9) r) PosInf) rows \<and>
       handleCalculate (Some rows) ''v'' ''9'' =
         Inr \<lparr>volume = Num (Fin 300),
              calculationNote = Some ''No exact match. Showing value for closest height: 6.''\<rparr>)"
proof -
  define first where "first = [(''id'', high (Num (Fin 1))), (''Mouille'', high (Num (Fin 5))),
                 (''v'', high (Num (Fin 200)))]"
  define second where "second = [(''id'', high (Num (Fin 2))), (''Mouille'', high (Num (Fin 6))),
                  (''v'', high (Num (Fin 300)))]"
  define rows where "rows = first # [second]"
  have half: "rd (1 / 2) = Fin (1 / 2)" "rd (11 / 2) = Fin (11 / 2)"
    using rd_dyadic[of 1 "- 1"] rd_dyadic[of 11 "- 1"] by simp_all
  have h: "rows = first # [second]" "keys first = ''id'' # [''Mouille'', ''v'']"
    "''Mouille'' = (case filter mentionsMouill (keys first) of [] \<Rightarrow> ''id'' | h # _ \<Rightarrow> h)"
    "''Mouille'' \<noteq> []" "''v'' \<noteq> []"
    "list_all (hasKey ''Mouille'') rows" "list_all (hasKey ''v'') rows"
    by (simp_all add: rows_def first_def second_def keys_def hasKey_def rowGet_def
        mentionsMouill_def toLowerCase_def toLowerChar_def startsWith_def char_of_def)
  have p: "parseFloat ''5'' = Fin 5" "\<not> isNaN (Fin 5)"
    "parseFloat ''5.5'' = Fin (11 / 2)" "\<not> isNaN (Fin (11 / 2))"
    "parseFloat ''9'' = Fin 9" "\<not> isNaN (Fin 9)"
    by (simp_all add: parse_eval isNaN_def half)
  have at: "rowAt ''Mouille'' rows (Fin 5) = Some first"
    "rowAt ''Mouille'' rows (Fin (11 / 2)) = None"
    "rowAt ''Mouille'' rows (Math_floor (Fin (11 / 2))) = Some first"
    "rowAt ''Mouille'' rows (Math_ceil (Fin (11 / 2))) = Some second"
    "rowAt ''Mouille'' rows (Fin 9) = None"
    "rowAt ''Mouille'' rows (Math_floor (Fin 9)) = None"
    by (simp_all add: rows_def first_def second_def statement_eval)
  have nv: "numericValue (keyValue ''v'' first)" "numericValue (keyValue ''v'' second)"
    by (simp_all add: first_def second_def notion_eval keyValue_def rowGet_def high_def)
  have ra: "list_all (readsAlike ''Mouille'') rows"
    by (simp add: rows_def first_def second_def notion_eval statement_eval)
  have d: "distance ''Mouille'' (Fin 9) first = Fin 4" "distance ''Mouille'' (Fin 9) second = Fin 3"
    by (simp_all add: first_def second_def statement_eval jsub_def)
  have nh: "numericHeight ''Mouille'' first" "numericHeight ''Mouille'' second"
    by (simp_all add: first_def second_def notion_eval statement_eval)
  have fin: "list_all (\<lambda>r. numericHeight ''Mouille'' r \<and> jless (distance ''Mouille'' (Fin 9) r) PosInf) rows"
    by (simp add: rows_def d nh)
  then have fin': "list_all (\<lambda>r. numericHeight ''Mouille'' r \<longrightarrow>
                              jless (distance ''Mouille'' (Fin 9) r) PosInf) rows"
    by (simp add: list_all_iff)
  have some: "\<not> list_all (\<lambda>r. \<not> numericHeight ''Mouille'' r) rows"
    by (simp add: rows_def nh)
  have f: "findHeightKey (keys first) = Some ''Mouille''"
    using height_column[OF h p(1,2)] by blast
  have e1: "handleCalculate (Some rows) ''v'' ''5'' =
         Inr \<lparr>volume = Num (Fin 200), calculationNote = Some ''Exact value found in table.''\<rparr>"
  proof -
    from height_column[OF h p(1,2)] at(1)
    have "handleCalculate (Some rows) ''v'' ''5'' =
          Inr \<lparr>volume = keyValue ''v'' first,
               calculationNote = Some ''Exact value found in table.''\<rparr>" by blast
    then show ?thesis by (simp add: first_def keyValue_def rowGet_def high_def)
  qed
  have e2: "handleCalculate (Some rows) ''v'' ''5.5'' =
         Inr \<lparr>volume = Str ''250.00'',
              calculationNote = Some ''Interpolated between 5 and 6.''\<rparr>"
  proof -
    from height_column[OF h p(3,4)] at(2,3,4) nv
    have "handleCalculate (Some rows) ''v'' ''5.5'' =
          Inr \<lparr>volume = Str (toFixed2 (jadd (Number (keyValue ''v'' first))
                     (jmul (jsub (Number (keyValue ''v'' second)) (Number (keyValue ''v'' first)))
                           (jsub (Fin (11 / 2)) (Math_floor (Fin (11 / 2))))))),
               calculationNote =
                 Some (''Interpolated between '' @ NumberToString (Math_floor (Fin (11 / 2))) @
                       '' and '' @ NumberToString (Math_ceil (Fin (11 / 2))) @ ''.'')\<rparr>" by blast
    moreover have "toFixed2 (jadd (Number (keyValue ''v'' first))
                     (jmul (jsub (Number (keyValue ''v'' second)) (Number (keyValue ''v'' first)))
                           (jsub (Fin (11 / 2)) (Math_floor (Fin (11 / 2)))))) = ''250.00''"
      by (simp add: first_def second_def keyValue_def rowGet_def Number_def high_def jsub_def
          half digits_eval Let_def)
    moreover have "NumberToString (Math_floor (Fin (11 / 2))) = ''5''"
      "NumberToString (Math_ceil (Fin (11 / 2))) = ''6''"
      by (simp_all add: number_eval)
    ultimately show ?thesis by simp
  qed
  have e3: "handleCalculate (Some rows) ''v'' ''9'' =
         Inr \<lparr>volume = Num (Fin 300),
              calculationNote = Some ''No exact match. Showing value for closest height: 6.''\<rparr>"
  proof -
    from height_column[OF h p(5,6)] at(5,6) ra fin' some
    obtain pre r post where r: "rows = pre @ r # post"
        "list_all (\<lambda>x. \<not> jless (distance ''Mouille'' (Fin 9) x) (distance ''Mouille'' (Fin 9) r)) post"
        "handleCalculate (Some rows) ''v'' ''9'' =
              Inr \<lparr>volume = keyValue ''v'' r,
                   calculationNote =
                     Some (''No exact match. Showing value for closest height: '' @
                           String (keyValue ''Mouille'' r) @ ''.'')\<rparr>"
      by blast
    from r(1) have "pre = [] \<and> r = first \<and> post = [second] \<or>
        pre = [first] \<and> r = second \<and> post = []"
      unfolding rows_def by (auto simp: Cons_eq_append_conv append_eq_Cons_conv)
    then have "r = second" using r(2) by (auto simp: d)
    then show ?thesis
      using r(3) by (simp add: second_def rowGet_def keyValue_def String_def high_def number_eval)
  qed
  show ?thesis
    using h f p at nv ra fin e1 e2 e3
    unfolding Let_def rows_def first_def second_def by simp
qed

theorem height_column_counterexample:
  "findHeightKey (keys [(''id'', high (Num (Fin 1))), (''Mouille'', high (Num (Fin 5))),
                        (''v'', high (Num (Fin 200)))]) = Some ''Mouille'' \<and>
   handleCalculate
     (Some [[(''id'', high (Num (Fin 1))), (''Mouille'', high (Num (Fin 5))),
             (''v'', high (Num (Fin 200)))]])
     ''v'' ''5''
     = Inr \<lparr>volume = Num (Fin 200), calculationNote = Some ''Exact value found in table.''\<rparr> \<and>
   handleCalculate
     (Some [[(''id'', high (Num (Fin 1))), (''Mouille'', high (Num (Fin 5))),
             (''v'', high (Num (Fin 200)))]])
     ''v'' ''1''
     = Inr \<lparr>volume = Num (Fin 200),
            calculationNote = Some ''No exact match. Showing value for closest height: 5.''\<rparr>"
  by (simp add: calc_eval)

text \<open>
  Claim C1, as amended. For a dataset with a row at height 20 whose target value is 200 and
  a row at height 30 whose target value is 300, and no other row, the query 25 is answered
  with status \<open>nearest\<close> and the value 200 of the first of the two equally near rows: 25 is
  its own floor and ceiling, and no row is kept at 25. In general, when no row is kept at
  the queried height itself, rows are kept at its floor and at its ceiling, and both their
  target values are numeric, the status is \<open>interpolated\<close> and the value is
  \<open>lowerVolume + (upperVolume - lowerVolume) * (queryHeight - floor(queryHeight))\<close>, computed in
  binary64 and printed by \<open>toFixed(2)\<close>.
\<close>

theorem interpolation_law:
  assumes "rows = first # rest" "findHeightKey (keys first) = Some hk" "hk \<noteq> []" "sel \<noteq> []"
    and "list_all (hasKey hk) rows"
    and "parseFloat wet = height" "\<not> isNaN height"
    and "rowAt hk rows height = None"
    and "rowAt hk rows (Math_floor height) = Some lowerRow"
    and "rowAt hk rows (Math_ceil height) = Some upperRow"
    and "rowGet lowerRow sel = Some lc" "rowGet upperRow sel = Some uc"
    and "numericValue (cellValue lc)" "numericValue (cellValue uc)"
  shows "handleCalculate (Some rows) sel wet =
     Inr \<lparr>volume = Str (toFixed2 (jadd (Number (cellValue lc))
                (jmul (jsub (Number (cellValue uc)) (Number (cellValue lc)))
                      (jsub height (Math_floor height))))),
          calculationNote = Some (''Interpolated between '' @ NumberToString (Math_floor height) @
                                  '' and '' @ NumberToString (Math_ceil height) @ ''.'')\<rparr>"
  using calc_interpolated[OF assms(1-12) numericValue_Number[OF assms(13)]
      numericValue_Number[OF assms(14)]] .

theorem interpolation_law_witness:
  "(let first = [(''h'', high (Num (Fin 20))), (''v'', high (Num (Fin 200)))];
        second = [(''h'', high (Num (Fin 21))), (''v'', high (Str ''300''))];
        rows = first # [second];
        height = Fin (41 / 2)
    in findHeightKey (keys first) = Some ''h'' \<and> ''h'' \<noteq> [] \<and> ''v'' \<noteq> [] \<and>
       list_all (hasKey ''h'') rows \<and> parseFloat ''20.5'' = height \<and> \<not> isNaN height \<and>
       rowAt ''h'' rows height = None \<and>
       rowAt ''h'' rows (Math_floor height) = Some first \<and>
       rowAt ''h'' rows (Math_ceil height) = Some second \<and>
       rowGet first ''v'' = Some (high (Num (Fin 200))) \<and>
       rowGet second ''v'' = Some (high (Str ''300'')) \<and>
       numericValue (cellValue (high (Num (Fin 200)))) \<and>
       numericValue (cellValue (high (Str ''300''))) \<and>
       handleCalculate (Some rows) ''v'' ''20.5'' =
         Inr \<lparr>volume = Str ''250.00'',
              calculationNote = Some ''Interpolated between 20 and 21.''\<rparr>)"
proof -
  define first where "first = [(''h'', high (Num (Fin 20))), (''v'', high (Num (Fin 200)))]"
  define second where "second = [(''h'', high (Num (Fin 21))), (''v'', high (Str ''300''))]"
  define rows where "rows = first # [second]"
  define height where "height = Fin (41 / 2)"
  have half: "rd (1 / 2) = Fin (1 / 2)" "rd (41 / 2) = Fin (41 / 2)"
    using rd_dyadic[of 1 "- 1"] rd_dyadic[of 41 "- 1"] by simp_all
  have h: "rows = first # [second]" "findHeightKey (keys first) = Some ''h''" "''h'' \<noteq> []"
    "''v'' \<noteq> []" "list_all (hasKey ''h'') rows" "parseFloat ''20.5'' = height" "\<not> isNaN height"
    "rowAt ''h'' rows height = None"
    "rowAt ''h'' rows (Math_floor height) = Some first"
    "rowAt ''h'' rows (Math_ceil height) = Some second"
    "rowGet first ''v'' = Some (high (Num (Fin 200)))"
    "rowGet second ''v'' = Some (high (Str ''300''))"
    "numericValue (cellValue (high (Num (Fin 200))))"
    "numericValue (cellValue (high (Str ''300'')))"
    by (simp_all add: rows_def first_def second_def height_def statement_eval notion_eval half)
  have a: "toFixed2 (jadd (Number (cellValue (high (Num (Fin 200)))))
             (jmul (jsub (Number (cellValue (high (Str ''300''))))
                         (Number (cellValue (high (Num (Fin 200))))))
                   (jsub height (Math_floor height)))) = ''250.00''"
    by (simp add: height_def Number_def high_def parse_eval jsub_def half digits_eval Let_def)
  have n: "NumberToString (Math_floor height) = ''20''" "NumberToString (Math_ceil height) = ''21''"
    by (simp_all add: height_def number_eval)
  have "handleCalculate (Some rows) ''v'' ''20.5'' =
         Inr \<lparr>volume = Str ''250.00'',
              calculationNote = Some ''Interpolated between 20 and 21.''\<rparr>"
    using interpolation_law[OF h] by (simp add: a n)
  then show ?thesis
    using h unfolding Let_def rows_def first_def second_def height_def by simp
qed

theorem interpolation_law_counterexample:
  "handleCalculate
     (Some [[(''h'', high (Num (Fin 20))), (''v'', high (Num (Fin 200)))],
            [(''h'', high (Num (Fin 30))), (''v'', high (Num (Fin 300)))]])
     ''v'' ''25''
   = Inr \<lparr>volume = Num (Fin 200),
          calculationNote = Some ''No exact match. Showing value for closest height: 20.''\<rparr>"
  by (simp add: calc_eval)




text \<open>
  Claim C9 says that an interpolated result is rounded to exactly two decimal places. For
  the dataset with height 20 and target \<open>10 ^ 21\<close>, and height 21 and target \<open>10 ^ 21\<close>, the
  query 20.5 is answered with status \<open>interpolated\<close> and the value \<open>1e+21\<close>, which has no
  decimal place: \<open>toFixed(2)\<close> prints a number of that size as \<open>String\<close> does.
\<close>

theorem interpolation_rounding:
  "handleCalculate
     (Some [[(''h'', high (Num (Fin 20))), (''v'', high (Num (Fin 1000000000000000000000)))],
            [(''h'', high (Num (Fin 21))), (''v'', high (Num (Fin 1000000000000000000000)))]])
     ''v'' ''20.5''
   = Inr \<lparr>volume = Str ''1e+21'',
          calculationNote = Some ''Interpolated between 20 and 21.''\<rparr>"
proof -
  have p: "parseFloat ''20.5'' = Fin (41 / 2)"
    using rd_dyadic[of 41 "- 1"] by (simp add: parse_eval)
  have half: "rd (1 / 2) = Fin (1 / 2)"
    using rd_dyadic[of 1 "- 1"] by simp
  have n: "NumberToString (Fin 20) = ''20''" "NumberToString (Fin 21) = ''21''"
    by (simp_all add: number_eval)
  show ?thesis
    by (simp add: handleCalculate_def computeMemo_def findHeightKey_def mentionsMouill_def
        toLowerCase_def toLowerChar_def startsWith_def keys_def propKey_def readValue_def
        rowGet_def Number_def isNaN_def isDisabled_def calculate_def mapGet_def interpolate_def
        high_def p half n jsub_def rd_1e21 NumberToString_1e21 Let_def
        del: NumberToString.simps)
qed

text \<open>
  Claim C10, as amended. A row whose height cell is \<open>null\<close>, the empty string or a string of
  white space is kept by the index under the number 0. The query 0 is then answered with
  status \<open>exact\<close> and the target value of the last row of the dataset kept under 0, which is
  that row when no later row's height cell coerces to 0 (every row having the height
  column, that row having the target column, and a target column being selected).
\<close>

theorem blank_height_is_zero:
  assumes "rows = first # rest" "findHeightKey (keys first) = Some hk" "hk \<noteq> []" "sel \<noteq> []"
    and "list_all (hasKey hk) rows"
    and "r \<in> set rows"
    and "keyValue hk r = Null \<or> (\<exists>s. keyValue hk r = Str s \<and> list_all isWhiteSpace s)"
    and "last (filter (\<lambda>x. heightNumber hk x = Fin 0) rows) = r"
    and "rowGet r sel = Some c"
  shows "heightNumber hk r = Fin 0 \<and>
         handleCalculate (Some rows) sel ''0'' =
           Inr \<lparr>volume = cellValue c, calculationNote = Some ''Exact value found in table.''\<rparr>"
proof -
  have z: "heightNumber hk r = Fin 0"
    using assms(7) by (auto simp: heightNumber_def Number_def StringToNumber_def trim_blank)
  from handleCalculate_unfold[OF assms(1,2,5), of sel "''0''"] obtain dm where
    dm: "\<forall>x. x \<noteq> NaN \<longrightarrow> mapGet dm x = rowAt hk rows x"
      "dm = [] \<longleftrightarrow> list_all (\<lambda>r. isNaN (heightNumber hk r)) rows"
      "handleCalculate (Some rows) sel ''0'' =
             (if hk = [] \<or> sel = [] \<or> dm = []
              then Inr \<lparr>volume = Str ''N/A'', calculationNote = None\<rparr>
              else calculate rows hk dm sel ''0'')" by blast
  have "filter (\<lambda>x. heightNumber hk x = Fin 0) rows \<noteq> []"
    using assms(6) z by (auto simp: filter_empty_conv)
  then have at: "rowAt hk rows (Fin 0) = Some r"
    using assms(8) by (auto simp: rowAt_def split: list.splits)
  have ne: "dm \<noteq> []" using index_nonempty[OF at] dm(2) by simp
  have g: "mapGet dm (Fin 0) = Some r" using dm(1) at by simp
  have "handleCalculate (Some rows) sel ''0'' = calculate rows hk dm sel ''0''"
    using dm(3) ne assms(3,4) by simp
  also have "\<dots> = Inr \<lparr>volume = cellValue c, calculationNote = Some ''Exact value found in table.''\<rparr>"
    using g assms(9) by (simp add: calculate_def Let_def parseFloat_0 isNaN_def readValue_def)
  finally show ?thesis using z by simp
qed

theorem blank_height_is_zero_witness:
  "(let first = [(''h'', high (Num (Fin 10))), (''v'', high (Num (Fin 100)))];
        r = [(''h'', high (Str '' '')), (''v'', high (Num (Fin 7)))];
        rows = first # [r]
    in findHeightKey (keys first) = Some ''h'' \<and> ''h'' \<noteq> [] \<and> ''v'' \<noteq> [] \<and>
       list_all (hasKey ''h'') rows \<and> r \<in> set rows \<and>
       keyValue ''h'' r = Str '' '' \<and> list_all isWhiteSpace '' '' \<and>
       last (filter (\<lambda>x. heightNumber ''h'' x = Fin 0) rows) = r \<and>
       rowGet r ''v'' = Some (high (Num (Fin 7))) \<and>
       heightNumber ''h'' r = Fin 0 \<and>
       handleCalculate (Some rows) ''v'' ''0'' =
         Inr \<lparr>volume = Num (Fin 7), calculationNote = Some ''Exact value found in table.''\<rparr>)"
proof -
  define first where "first = [(''h'', high (Num (Fin 10))), (''v'', high (Num (Fin 100)))]"
  define r where "r = [(''h'', high (Str '' '')), (''v'', high (Num (Fin 7)))]"
  define rows where "rows = first # [r]"
  have h: "rows = first # [r]" "findHeightKey (keys first) = Some ''h''" "''h'' \<noteq> []"
    "''v'' \<noteq> []" "list_all (hasKey ''h'') rows" "r \<in> set rows"
    by (simp_all add: rows_def first_def r_def statement_eval)
  have k: "keyValue ''h'' r = Str '' ''" "list_all isWhiteSpace '' ''"
    by (simp_all add: r_def statement_eval)
  then have k': "keyValue ''h'' r = Null \<or> (\<exists>s. keyValue ''h'' r = Str s \<and> list_all isWhiteSpace s)"
    by blast
  have l: "last (filter (\<lambda>x. heightNumber ''h'' x = Fin 0) rows) = r"
    "rowGet r ''v'' = Some (high (Num (Fin 7)))"
    by (simp_all add: rows_def first_def r_def statement_eval)
  from blank_height_is_zero[OF h k' l]
  have "heightNumber ''h'' r = Fin 0 \<and>
       handleCalculate (Some rows) ''v'' ''0'' =
         Inr \<lparr>volume = Num (Fin 7), calculationNote = Some ''Exact value found in table.''\<rparr>"
    by (simp add: high_def)
  then show ?thesis
    using h k l unfolding Let_def rows_def first_def r_def by simp
qed

theorem blank_height_is_zero_counterexample:
  "handleCalculate
     (Some [[(''h'', high Null), (''v'', high (Num (Fin 5)))],
            [(''h'', high (Str '' '')), (''v'', high (Num (Fin 7)))]])
     ''v'' ''0''
     = Inr \<lparr>volume = Num (Fin 7), calculationNote = Some ''Exact value found in table.''\<rparr>"
  by (simp add: calc_eval)

end
